theory Spec2Isabelle
  imports Complex_Main
begin

section \<open>Text, bytes and the line pattern\<close>

text \<open>
  Python strings and byte strings are both modelled as \<open>string\<close> (lists of 8-bit
  characters); the wire format of the DAQ card is 7-bit ASCII, where the two coincide.
\<close>

abbreviation LF :: char where "LF \<equiv> CHR 0x0A"
abbreviation CR :: char where "CR \<equiv> CHR 0x0D"

text \<open>\<open>str.rstrip(chars)\<close>: drop every trailing character that occurs in \<open>chars\<close>.\<close>

definition rstrip :: "string \<Rightarrow> string \<Rightarrow> string" where
  "rstrip chars s = rev (dropWhile (\<lambda>c. c \<in> set chars) (rev s))"

text \<open>
  The fragment of Python's regular expressions that \<open>LINE_PATTERN\<close> uses: the anchors
  \<open>^\<close> and \<open>$\<close> and a starred character class. A class is the list of its inclusive
  ranges, a single character \<open>c\<close> being the range \<open>(c, c)\<close>.
\<close>

datatype re_item = Bol | Eol | StarClass "(char \<times> char) list"

fun in_class :: "(char \<times> char) list \<Rightarrow> char \<Rightarrow> bool" where
  "in_class [] c = False"
| "in_class ((lo, hi) # rs) c =
     (((of_char lo :: nat) \<le> of_char c \<and> (of_char c :: nat) \<le> of_char hi) \<or> in_class rs c)"

text \<open>
  Backtracking match of a pattern at the current position; \<open>at_start\<close> says whether the
  position is the beginning of the string. Without the MULTILINE flag \<open>^\<close> matches only
  there, and \<open>$\<close> matches at the end of the string or just before a newline that ends it.
  A star first tries to consume one more character (greedy) and otherwise gives up the
  position to the rest of the pattern. An exhausted pattern matches: \<open>match\<close> does not
  require the whole string to be consumed.
\<close>

fun re_match_here :: "re_item list \<Rightarrow> bool \<Rightarrow> string \<Rightarrow> bool" where
  "re_match_here [] at_start s = True"
| "re_match_here (Bol # r) at_start s = (at_start \<and> re_match_here r at_start s)"
| "re_match_here (Eol # r) at_start s = ((s = [] \<or> s = [LF]) \<and> re_match_here r at_start s)"
| "re_match_here (StarClass cls # r) at_start s =
     ((case s of [] \<Rightarrow> False
        | c # t \<Rightarrow> in_class cls c \<and> re_match_here (StarClass cls # r) False t)
      \<or> re_match_here r at_start s)"

text \<open>\<open>pattern.match(line) is not None\<close>: a match anchored at the beginning of the line.\<close>

definition re_match :: "re_item list \<Rightarrow> string \<Rightarrow> bool" where
  "re_match p line = re_match_here p True line"

text \<open>
  The first class of \<open>LINE_PATTERN\<close>, read as the regular expression parser reads it:
  \<open>a-z\<close>, \<open>A-Z\<close>, \<open>0-9\<close> and \<open>+-.\<close> are ranges (the hyphen between \<open>+\<close> and \<open>.\<close> is a
  range operator), every other character stands for itself.
\<close>

definition LINE_CLASS :: "(char \<times> char) list" where
  "LINE_CLASS =
     [(CHR ''a'', CHR ''z''), (CHR ''A'', CHR ''Z''), (CHR ''0'', CHR ''9''),
      (CHR ''+'', CHR ''.'')] @
     map (\<lambda>c. (c, c)) ('',:()=$/#?!%_@*|~'' @ [CHR 0x27, CHR '' ''])"

definition EOL_CLASS :: "(char \<times> char) list" where
  "EOL_CLASS = [(LF, LF), (CR, CR)]"

definition LINE_PATTERN :: "re_item list" where
  "LINE_PATTERN = [Bol, StarClass LINE_CLASS, StarClass EOL_CLASS, Eol]"

section \<open>Logging\<close>

datatype level = DEBUG | INFO | WARNING | ERROR | FATAL

type_synonym logger = "(level \<times> string) list"

definition log_msg :: "level \<Rightarrow> string \<Rightarrow> logger \<Rightarrow> logger" where
  "log_msg lv msg lg = lg @ [(lv, msg)]"

section \<open>BaseDAQProvider\<close>

text \<open>\<open>_validate_line\<close>: the line when it matches the pattern, otherwise a warning and \<open>None\<close>.\<close>

definition validate_line :: "logger \<Rightarrow> string \<Rightarrow> string option \<times> logger" where
  "validate_line lg line =
     (if \<not> re_match LINE_PATTERN line
      then (None, log_msg WARNING (''Got garbage from the DAQ: '' @ rstrip [CR, LF] line) lg)
      else (Some line, lg))"

text \<open>
  The grammar as the specification words it: letters, digits, the punctuation set
  \<open>+-.,:()=$/#?!%_@*|~'\<close> and space.
\<close>

definition is_letter :: "char \<Rightarrow> bool" where
  "is_letter c = (c \<in> set ''abcdefghijklmnopqrstuvwxyz'' \<or> c \<in> set ''ABCDEFGHIJKLMNOPQRSTUVWXYZ'')"

definition is_digit :: "char \<Rightarrow> bool" where
  "is_digit c = (c \<in> set ''0123456789'')"

definition spec_punctuation :: string where
  "spec_punctuation = ''+-.,:()=$/#?!%_@*|~'' @ [CHR 0x27]"

definition grammar_char :: "char \<Rightarrow> bool" where
  "grammar_char c = (is_letter c \<or> is_digit c \<or> c \<in> set spec_punctuation \<or> c = CHR '' '')"

definition is_crlf :: "char \<Rightarrow> bool" where
  "is_crlf c = (c = CR \<or> c = LF)"

text \<open>The line without its trailing CR/LF characters, as the specification reads it.\<close>

definition strip_eol :: "string \<Rightarrow> string" where
  "strip_eol s = rev (dropWhile is_crlf (rev s))"

section \<open>Exceptions\<close>

text \<open>
  The exceptions that the modelled code raises or handles. \<open>serial.SerialException\<close> is a
  subclass of \<open>IOError\<close> and \<open>serial.SerialTimeoutException\<close> a subclass of
  \<open>serial.SerialException\<close>; the other classes are unrelated to these.
\<close>

datatype exn =
    OSError string
  | SerialException string
  | SerialTimeoutException string
  | QueueEmpty
  | NotImplementedError
  | UnicodeDecodeError
  | TypeError string
  | DAQIOError string


text \<open>\<open>except serial.SerialException\<close>\<close>

fun is_SerialException :: "exn \<Rightarrow> bool" where
  "is_SerialException (SerialException m) = True"
| "is_SerialException (SerialTimeoutException m) = True"
| "is_SerialException e = False"

text \<open>\<open>except OSError\<close> and \<open>except (IOError, OSError)\<close>\<close>

fun is_OSError :: "exn \<Rightarrow> bool" where
  "is_OSError (OSError m) = True"
| "is_OSError (SerialException m) = True"
| "is_OSError (SerialTimeoutException m) = True"
| "is_OSError e = False"

text \<open>\<open>str(e)\<close>, as the logger prints an exception.\<close>

fun exn_str :: "exn \<Rightarrow> string" where
  "exn_str (OSError m) = m"
| "exn_str (SerialException m) = m"
| "exn_str (SerialTimeoutException m) = m"
| "exn_str (TypeError m) = m"
| "exn_str (DAQIOError m) = m"
| "exn_str e = []"

section \<open>Byte strings\<close>

text \<open>
  \<open>bytes.strip()\<close> without argument removes ASCII whitespace (space, TAB, LF, VT, FF, CR)
  from both ends.
\<close>

definition is_space :: "char \<Rightarrow> bool" where
  "is_space c = (c \<in> set [CHR '' '', CHR 0x09, LF, CR, CHR 0x0B, CHR 0x0C])"

definition strip :: "string \<Rightarrow> string" where
  "strip s = rev (dropWhile is_space (rev (dropWhile is_space s)))"

definition is_ascii :: "char \<Rightarrow> bool" where
  "is_ascii c = ((of_char c :: nat) < 128)"

text \<open>
  \<open>bytes.decode()\<close>: on 7-bit input UTF-8 decoding is the identity. A byte above
  \<open>0x7F\<close> either is malformed (\<open>UnicodeDecodeError\<close>) or belongs to a sequence whose code
  point may have no counterpart in an 8-bit string; the model covers the ASCII wire format
  and reports every such input as \<open>UnicodeDecodeError\<close>.
\<close>

definition decode :: "string \<Rightarrow> exn + string" where
  "decode bs = (if list_all is_ascii bs then Inr bs else Inl UnicodeDecodeError)"

text \<open>\<open>str.encode()\<close>: UTF-8; a character above \<open>0x7F\<close> takes two bytes.\<close>

definition encode_char :: "char \<Rightarrow> string" where
  "encode_char c =
     (let n = (of_char c :: nat)
      in if n < 128 then [c] else [char_of (192 + n div 64), char_of (128 + n mod 64)])"

definition encode :: "string \<Rightarrow> string" where
  "encode s = concat (map encode_char s)"

section \<open>The serial port\<close>

text \<open>
  A \<open>serial.Serial\<close> object: the bytes waiting in its input buffer, the byte strings
  written through it, whether it is open, and the I/O fault the device is going to show:
  \<open>Some (n, e)\<close> lets \<open>n\<close> more calls succeed and raises \<open>e\<close> on every call after them.
\<close>

record port =
  rx :: string
  tx :: "string list"
  is_open :: bool
  fault :: "(nat \<times> exn) option"

text \<open>What every I/O call on the port does first.\<close>

definition port_op :: "port \<Rightarrow> exn + port" where
  "port_op p =
     (if \<not> is_open p then Inl (SerialException ''Attempting to use a port that is not open'')
      else (case fault p of
              None \<Rightarrow> Inr p
            | Some (n, e) \<Rightarrow>
                (case n of 0 \<Rightarrow> Inl e | Suc k \<Rightarrow> Inr (p\<lparr>fault := Some (k, e)\<rparr>))))"

definition inWaiting :: "port \<Rightarrow> exn + (nat \<times> port)" where
  "inWaiting p = (case port_op p of Inl e \<Rightarrow> Inl e | Inr p' \<Rightarrow> Inr (length (rx p'), p'))"

text \<open>
  The first line of a buffer, with its LF, and the rest; a buffer without LF is returned
  whole (\<open>readline\<close> gives up after the read timeout).
\<close>

fun split_line :: "string \<Rightarrow> string \<times> string" where
  "split_line [] = ([], [])"
| "split_line (c # s) =
     (if c = LF then ([c], s) else (case split_line s of (l, r) \<Rightarrow> (c # l, r)))"

definition readline :: "port \<Rightarrow> exn + (string \<times> port)" where
  "readline p =
     (case port_op p of
        Inl e \<Rightarrow> Inl e
      | Inr p' \<Rightarrow> (case split_line (rx p') of (l, r) \<Rightarrow> Inr (l, p'\<lparr>rx := r\<rparr>)))"

definition port_write :: "port \<Rightarrow> string \<Rightarrow> exn + port" where
  "port_write p d = (case port_op p of Inl e \<Rightarrow> Inl e | Inr p' \<Rightarrow> Inr (p'\<lparr>tx := tx p' @ [d]\<rparr>))"

definition port_close :: "port \<Rightarrow> port" where
  "port_close p = p\<lparr>is_open := False\<rparr>"

section \<open>The environment\<close>

text \<open>
  What the code asks of its platform: \<open>subprocess.Popen([script])\<close> with the standard output
  of the script (or the exception of a script that cannot be run), \<open>os.path.exists\<close>, the
  absolute path of the packaged \<open>bin/which_tty_daq\<close>, the outcome of the \<open>n\<close>-th call of
  \<open>serial.Serial(port=dev, ...)\<close>, the number of such calls made, the pauses taken with
  \<open>sleep\<close>, the ports that were closed, in the state they were closed in, and whether
  \<open>multiprocessing.Queue.qsize\<close> is implemented (it is not on macOS).
\<close>

record world =
  popen :: "string \<Rightarrow> exn + string"
  path_exists :: "string \<Rightarrow> bool"
  package_script :: string
  serial_open :: "nat \<Rightarrow> string \<Rightarrow> exn + port"
  opens :: nat
  naps :: "rat list"
  released :: "port list"
  has_qsize :: bool

definition sleep :: "rat \<Rightarrow> world \<Rightarrow> world" where
  "sleep t w = w\<lparr>naps := naps w @ [t]\<rparr>"

text \<open>\<open>serial_port.close()\<close>, as the platform sees it.\<close>

definition release :: "port \<Rightarrow> world \<Rightarrow> world" where
  "release p w = w\<lparr>released := released w @ [port_close p]\<rparr>"

text \<open>
  Python floats are modelled as rationals together with the rounding function \<open>fl\<close> of
  the platform, applied to every literal and to every arithmetic result.
\<close>

type_synonym rounding = "rat \<Rightarrow> rat"

definition rounds :: "rounding \<Rightarrow> bool" where
  "rounds fl = (mono fl \<and> fl 0 = 0 \<and> fl (fl (1/100)) = fl (1/100) \<and> fl (fl (1/5)) = fl (1/5))"

section \<open>Queues\<close>

text \<open>
  A \<open>multiprocessing.Queue\<close> is the list of its items, oldest first. \<open>get(0)\<close> and
  \<open>get(timeout=t)\<close> raise \<open>queue.Empty\<close> on an empty queue; a blocking \<open>get()\<close> on an
  empty queue does not return before another process puts an item. An item is in the
  queue as soon as it is put: the delay of the feeder thread is not modelled.
\<close>

datatype wait = Block | NoWait | Timeout rat

datatype 'a outcome = Returned 'a | Raised exn | Blocked

definition get_nowait :: "'a list \<Rightarrow> exn + ('a \<times> 'a list)" where
  "get_nowait q = (case q of [] \<Rightarrow> Inl QueueEmpty | x # r \<Rightarrow> Inr (x, r))"

definition queue_get :: "wait \<Rightarrow> 'a list \<Rightarrow> 'a outcome \<times> 'a list" where
  "queue_get wt q =
     (case get_nowait q of
        Inr (x, r) \<Rightarrow> (Returned x, r)
      | Inl e \<Rightarrow> (case wt of Block \<Rightarrow> (Blocked, q) | NoWait \<Rightarrow> (Raised e, q) | Timeout t \<Rightarrow> (Raised e, q)))"

definition queue_put :: "'a \<Rightarrow> 'a list \<Rightarrow> 'a list" where
  "queue_put x q = q @ [x]"


section \<open>BaseDAQConnection\<close>

record base_conn =
  logger :: logger
  running :: bool
  serial_port :: port

text \<open>\<open>get_dev_path\<close>: run the script and turn its output into a device path.\<close>

definition get_dev_path :: "world \<Rightarrow> string \<Rightarrow> exn + string" where
  "get_dev_path w script =
     (case popen w script of
        Inl e \<Rightarrow> Inl e
      | Inr tty \<Rightarrow> (case decode tty of Inl e \<Rightarrow> Inl e | Inr t \<Rightarrow> Inr (''/dev/'' @ rstrip [LF] t)))"

text \<open>
  The first \<open>try\<close> of the loop body of \<open>get_serial_port\<close>: the device path from the
  script on the search path or, when running that raises \<open>OSError\<close>, from the packaged
  script; without a packaged script \<open>OSError\<close> is raised.
\<close>

definition find_dev :: "world \<Rightarrow> exn + string" where
  "find_dev w =
     (case get_dev_path w ''which_tty_daq'' of
        Inr dev \<Rightarrow> Inr dev
      | Inl e \<Rightarrow>
          if is_OSError e then
            (if \<not> path_exists w (package_script w)
             then Inl (OSError ''Can not find binary which_tty_daq'')
             else get_dev_path w (package_script w))
          else Inl e)"

text \<open>
  One pass through the body of \<open>while not connected\<close>: an exception that leaves the
  function, or the port (\<open>None\<close> when the open failed and the loop goes on).
\<close>

definition try_connect :: "logger \<Rightarrow> world \<Rightarrow> (exn + port option) \<times> logger \<times> world" where
  "try_connect lg w =
     (case find_dev w of
        Inl e \<Rightarrow> (Inl e, lg, w)
      | Inr dev \<Rightarrow>
          (let lg1 = log_msg INFO ''trying to connect...'' (log_msg INFO (''Daq found at '' @ dev) lg);
               w1 = w\<lparr>opens := Suc (opens w)\<rparr>
           in case serial_open w (opens w) dev of
                Inr p \<Rightarrow> (Inr (Some p), lg1, w1)
              | Inl e \<Rightarrow>
                  if is_SerialException e
                  then (Inr None,
                        log_msg ERROR ''Waiting 5 seconds'' (log_msg ERROR (exn_str e) lg1),
                        sleep 5 w1)
                  else (Inl e, lg1, w1)))"

text \<open>
  \<open>get_serial_port\<close>: the loop may never end, so the function is partial; \<open>None\<close> is a
  call that does not return.
\<close>

partial_function (option) get_serial_port ::
  "logger \<Rightarrow> world \<Rightarrow> ((exn + port) \<times> logger \<times> world) option" where
  "get_serial_port lg w =
     (case try_connect lg w of
        (Inl e, lg', w') \<Rightarrow> Some (Inl e, lg', w')
      | (Inr (Some p), lg', w') \<Rightarrow>
          Some (Inr p, log_msg INFO ''Successfully connected to serial port'' lg', w')
      | (Inr None, lg', w') \<Rightarrow> get_serial_port lg' w')"

declare get_serial_port.simps [code]

text \<open>The first \<open>n\<close> passes of the same loop; \<open>None\<close> when it is still trying after them.\<close>

fun get_serial_port_n ::
  "nat \<Rightarrow> logger \<Rightarrow> world \<Rightarrow> ((exn + port) \<times> logger \<times> world) option \<times> logger \<times> world" where
  "get_serial_port_n 0 lg w = (None, lg, w)"
| "get_serial_port_n (Suc n) lg w =
     (case try_connect lg w of
        (Inl e, lg', w') \<Rightarrow> (Some (Inl e, lg', w'), lg', w')
      | (Inr (Some p), lg', w') \<Rightarrow>
          (Some (Inr p, log_msg INFO ''Successfully connected to serial port'' lg', w'), lg', w')
      | (Inr None, lg', w') \<Rightarrow> get_serial_port_n n lg' w')"


section \<open>The reader loops\<close>

text \<open>The two bounds and the two adjustments of the polling interval in \<open>read\<close>.\<close>

definition min_sleep_time :: "rounding \<Rightarrow> rat" where
  "min_sleep_time fl = fl (1/100)"

definition max_sleep_time :: "rounding \<Rightarrow> rat" where
  "max_sleep_time fl = fl (1/5)"

definition speed_up :: "rounding \<Rightarrow> rat \<Rightarrow> rat" where
  "speed_up fl sleep_time = max (fl (sleep_time / 2)) (min_sleep_time fl)"

definition slow_down :: "rounding \<Rightarrow> rat \<Rightarrow> rat" where
  "slow_down fl sleep_time = min (fl (3/2 * sleep_time)) (max_sleep_time fl)"

text \<open>
  The inner loop \<open>while self.serial_port.inWaiting(): sink(readline().strip().decode())\<close>
  of \<open>DAQConnection.read\<close> and \<open>DAQServer.read\<close>, which differ in the sink only: the
  outbound queue or the socket. The result is the exception that ended the loop, if any,
  with the port and the sink as the loop left them.
\<close>

function drain :: "(string \<Rightarrow> 'k \<Rightarrow> exn + 'k) \<Rightarrow> port \<Rightarrow> 'k \<Rightarrow> exn option \<times> port \<times> 'k" where
  "drain emit p k =
     (case inWaiting p of
        Inl e \<Rightarrow> (Some e, p, k)
      | Inr (n, p1) \<Rightarrow>
          if n = 0 then (None, p1, k)
          else (case readline p1 of
                  Inl e \<Rightarrow> (Some e, p1, k)
                | Inr (line, p2) \<Rightarrow>
                    (case decode (strip line) of
                       Inl e \<Rightarrow> (Some e, p2, k)
                     | Inr s \<Rightarrow>
                         (case emit s k of
                            Inl e \<Rightarrow> (Some e, p2, k)
                          | Inr k' \<Rightarrow> drain emit p2 k'))))"
  by pat_completeness auto
termination
proof (relation "measure (\<lambda>(emit, p, k). length (rx p))")
  show "wf (measure (\<lambda>(emit :: string \<Rightarrow> 'k \<Rightarrow> exn + 'k, p, k :: 'k). length (rx p)))"
    by simp
next
  fix emit :: "string \<Rightarrow> 'k \<Rightarrow> exn + 'k" and p :: port and k k' :: 'k
    and x n p1 y line p2 s
  assume a: "inWaiting p = Inr x" "(n, p1) = x" "n \<noteq> 0" "readline p1 = Inr y" "(line, p2) = y"
  have le: "length (snd (split_line b)) \<le> length b" for b
    by (induction b) (auto split: prod.splits)
  have shrink: "length (snd (split_line b)) < length b" if "b \<noteq> []" for b
  proof (cases b)
    case Nil
    then show ?thesis using that by simp
  next
    case (Cons c t)
    then show ?thesis using le[of t] by (auto split: prod.splits)
  qed
  from a(1,2) have 1: "n = length (rx p1)" "rx p1 = rx p"
    by (auto simp: inWaiting_def port_op_def split: if_splits sum.splits option.splits nat.splits)
  from a(4,5) have 2: "rx p2 = snd (split_line (rx p1))"
    by (auto simp: readline_def port_op_def
        split: if_splits sum.splits option.splits nat.splits prod.splits)
  have "length (rx p2) < length (rx p)"
    using 1 2 a(3) shrink[of "rx p1"] by auto
  then show "((emit, p2, k'), (emit, p, k)) \<in> measure (\<lambda>(emit, p, k). length (rx p))"
    by simp
qed

declare drain.simps [simp del]

text \<open>The body of \<open>try\<close> in one iteration of \<open>read\<close>.\<close>

definition read_try ::
  "(string \<Rightarrow> 'k \<Rightarrow> exn + 'k) \<Rightarrow> rounding \<Rightarrow> world \<Rightarrow> port \<Rightarrow> 'k \<Rightarrow> rat \<Rightarrow>
     exn option \<times> world \<times> port \<times> 'k \<times> rat" where
  "read_try emit fl w p k sleep_time =
     (case inWaiting p of
        Inl e \<Rightarrow> (Some e, w, p, k, sleep_time)
      | Inr (n, p1) \<Rightarrow>
          if n \<noteq> 0 then
            (case drain emit p1 k of
               (Some e, p2, k2) \<Rightarrow> (Some e, w, p2, k2, sleep_time)
             | (None, p2, k2) \<Rightarrow>
                 (None, sleep (speed_up fl sleep_time) w, p2, k2, speed_up fl sleep_time))
          else (None, sleep (slow_down fl sleep_time) w, p1, k, slow_down fl sleep_time))"

text \<open>
  The handler \<open>except (IOError, OSError)\<close> of \<open>read\<close>: log, close the port and acquire a
  new one. An exception of another class passes through, and so does one that
  \<open>get_serial_port\<close> raises inside the handler.
\<close>

definition recover ::
  "exn \<Rightarrow> world \<Rightarrow> 'a base_conn_scheme \<Rightarrow> (exn option \<times> world \<times> 'a base_conn_scheme) option" where
  "recover e w c =
     (if is_OSError e then
        (case get_serial_port (log_msg ERROR ''IOError'' (logger c)) (release (serial_port c) w) of
           None \<Rightarrow> None
         | Some (Inl e', lg', w') \<Rightarrow>
             Some (Some e', w', c\<lparr>logger := lg', serial_port := port_close (serial_port c)\<rparr>)
         | Some (Inr p', lg', w') \<Rightarrow> Some (None, w', c\<lparr>logger := lg', serial_port := p'\<rparr>))
      else Some (Some e, w, c))"

section \<open>DAQConnection\<close>

record conn = base_conn +
  in_queue :: "string list"
  out_queue :: "string list"

definition put_line :: "string \<Rightarrow> string list \<Rightarrow> exn + string list" where
  "put_line s q = Inr (queue_put s q)"

text \<open>
  One iteration of \<open>while self.running\<close> in \<open>DAQConnection.read\<close>, from the current value
  of the local \<open>sleep_time\<close>: the exception that leaves \<open>read\<close>, if any, and the new state.
\<close>

definition DAQConnection_read_iteration ::
  "rounding \<Rightarrow> world \<Rightarrow> conn \<Rightarrow> rat \<Rightarrow> (exn option \<times> world \<times> conn \<times> rat) option" where
  "DAQConnection_read_iteration fl w c sleep_time =
     (case read_try put_line fl w (serial_port c) (out_queue c) sleep_time of
        (None, w1, p1, q1, t1) \<Rightarrow> Some (None, w1, c\<lparr>serial_port := p1, out_queue := q1\<rparr>, t1)
      | (Some e, w1, p1, q1, t1) \<Rightarrow>
          (case recover e w1 (c\<lparr>serial_port := p1, out_queue := q1\<rparr>) of
             None \<Rightarrow> None
           | Some (r, w2, c2) \<Rightarrow> Some (r, w2, c2, t1)))"

text \<open>The first \<open>n\<close> iterations of \<open>DAQConnection.read\<close>.\<close>

fun DAQConnection_read_n ::
  "nat \<Rightarrow> rounding \<Rightarrow> world \<Rightarrow> conn \<Rightarrow> rat \<Rightarrow> (exn option \<times> world \<times> conn \<times> rat) option" where
  "DAQConnection_read_n 0 fl w c t = Some (None, w, c, t)"
| "DAQConnection_read_n (Suc n) fl w c t =
     (if \<not> running c then Some (None, w, c, t)
      else (case DAQConnection_read_iteration fl w c t of
              None \<Rightarrow> None
            | Some (Some e, w', c', t') \<Rightarrow> Some (Some e, w', c', t')
            | Some (None, w', c', t') \<Rightarrow> DAQConnection_read_n n fl w' c' t'))"












section \<open>DAQProvider\<close>

text \<open>
  The provider and its connection hold the same two queue objects and the same logger;
  the model keeps them once, in the connection.
\<close>

record provider =
  daq :: conn

definition DAQProvider_get :: "wait \<Rightarrow> provider \<Rightarrow> string option outcome \<times> provider" where
  "DAQProvider_get wt pr =
     (case queue_get wt (out_queue (daq pr)) of
        (Raised e, q) \<Rightarrow>
          if e = QueueEmpty then (Raised (DAQIOError ''Queue is empty''), pr\<lparr>daq := (daq pr)\<lparr>out_queue := q\<rparr>\<rparr>)
          else (Raised e, pr\<lparr>daq := (daq pr)\<lparr>out_queue := q\<rparr>\<rparr>)
      | (Blocked, q) \<Rightarrow> (Blocked, pr\<lparr>daq := (daq pr)\<lparr>out_queue := q\<rparr>\<rparr>)
      | (Returned line, q) \<Rightarrow>
          (case validate_line (logger (daq pr)) line of
             (r, lg) \<Rightarrow> (Returned r, pr\<lparr>daq := (daq pr)\<lparr>out_queue := q, logger := lg\<rparr>\<rparr>)))"


section \<open>DAQServer\<close>

text \<open>
  The paired socket: the messages received and not yet read, the messages sent, and
  whether \<open>send\<close> takes a text string (the library's \<open>send\<close> is for bytes; \<open>send_string\<close>
  is the call for text). \<open>recv_string\<close> on an empty inbox blocks: \<open>None\<close>.
\<close>

record sock =
  inbox :: "string list"
  outbox :: "string list"
  send_takes_text :: bool

definition sock_send :: "string \<Rightarrow> sock \<Rightarrow> exn + sock" where
  "sock_send s k =
     (if send_takes_text k then Inr (k\<lparr>outbox := outbox k @ [s]\<rparr>)
      else Inl (TypeError ''unicode not allowed, use send_string''))"

definition recv_string :: "sock \<Rightarrow> (string \<times> sock) option" where
  "recv_string k = (case inbox k of [] \<Rightarrow> None | m # r \<Rightarrow> Some (m, k\<lparr>inbox := r\<rparr>))"

record server = base_conn +
  socket :: sock

definition DAQServer_read_iteration ::
  "rounding \<Rightarrow> world \<Rightarrow> server \<Rightarrow> rat \<Rightarrow> (exn option \<times> world \<times> server \<times> rat) option" where
  "DAQServer_read_iteration fl w s sleep_time =
     (case read_try sock_send fl w (serial_port s) (socket s) sleep_time of
        (None, w1, p1, k1, t1) \<Rightarrow> Some (None, w1, s\<lparr>serial_port := p1, socket := k1\<rparr>, t1)
      | (Some e, w1, p1, k1, t1) \<Rightarrow>
          (case recover e w1 (s\<lparr>serial_port := p1, socket := k1\<rparr>) of
             None \<Rightarrow> None
           | Some (r, w2, s2) \<Rightarrow> Some (r, w2, s2, t1)))"

text \<open>One iteration of \<open>while self.running\<close> in \<open>DAQServer.write\<close>.\<close>

definition DAQServer_write_iteration ::
  "rounding \<Rightarrow> world \<Rightarrow> server \<Rightarrow> (exn option \<times> world \<times> server) option" where
  "DAQServer_write_iteration fl w s =
     (case recv_string (socket s) of
        None \<Rightarrow> None
      | Some (msg, k) \<Rightarrow>
          (case port_write (serial_port s) (encode (msg @ [CR])) of
             Inl e \<Rightarrow> Some (Some e, w, s\<lparr>socket := k\<rparr>)
           | Inr p \<Rightarrow> Some (None, sleep (fl (1/10)) w, s\<lparr>socket := k, serial_port := p\<rparr>)))"

text \<open>
  \<open>serve\<close> as a machine: the position is inside the loop of \<open>read\<close>, with the value of its
  local \<open>sleep_time\<close>, or inside the loop of \<open>write\<close>. A step is one iteration of the loop
  the position is in, or, where \<open>running\<close> is false, the return from it and the call of the
  other one. \<open>None\<close> is a step that does not end.
\<close>

datatype pc = InRead rat | InWrite

definition serve_step ::
  "rounding \<Rightarrow> world \<Rightarrow> server \<Rightarrow> pc \<Rightarrow> (exn option \<times> world \<times> server \<times> pc) option" where
  "serve_step fl w s pos =
     (case pos of
        InRead t \<Rightarrow>
          if running s then
            (case DAQServer_read_iteration fl w s t of
               None \<Rightarrow> None
             | Some (r, w', s', t') \<Rightarrow> Some (r, w', s', InRead t'))
          else Some (None, w, s, InWrite)
      | InWrite \<Rightarrow>
          if running s then
            (case DAQServer_write_iteration fl w s of
               None \<Rightarrow> None
             | Some (r, w', s') \<Rightarrow> Some (r, w', s', InWrite))
          else Some (None, w, s, InRead (min_sleep_time fl)))"

fun serve_n ::
  "nat \<Rightarrow> rounding \<Rightarrow> world \<Rightarrow> server \<Rightarrow> pc \<Rightarrow> (exn option \<times> world \<times> server \<times> pc) option" where
  "serve_n 0 fl w s pos = Some (None, w, s, pos)"
| "serve_n (Suc n) fl w s pos =
     (case serve_step fl w s pos of
        None \<Rightarrow> None
      | Some (Some e, w', s', pos') \<Rightarrow> Some (Some e, w', s', pos')
      | Some (None, w', s', pos') \<Rightarrow> serve_n n fl w' s' pos')"

section \<open>Initial states\<close>

text \<open>
  An open, healthy port with nothing to read, and the connection and provider as their
  constructors leave them around it: \<open>running = 1\<close>, both queues empty.
\<close>

definition idle_port :: port where
  "idle_port = \<lparr>rx = [], tx = [], is_open = True, fault = None\<rparr>"

definition new_conn :: "port \<Rightarrow> conn" where
  "new_conn p = \<lparr>logger = [], running = True, serial_port = p, in_queue = [], out_queue = []\<rparr>"

definition new_provider :: "port \<Rightarrow> provider" where
  "new_provider p = \<lparr>daq = new_conn p\<rparr>"


text \<open>
  A platform on which \<open>which_tty_daq\<close> is on the search path and prints \<open>ttyUSB0\<close>, the
  package carries no script of its own, and opening \<open>/dev/ttyUSB0\<close> yields the port \<open>p\<close>.
\<close>

definition lab_world :: "port \<Rightarrow> world" where
  "lab_world p =
     \<lparr>popen = (\<lambda>script. if script = ''which_tty_daq'' then Inr (''ttyUSB0'' @ [LF])
                        else Inl (OSError ''No such file or directory'')),
      path_exists = (\<lambda>path. False),
      package_script = ''/opt/muonic/bin/which_tty_daq'',
      serial_open = (\<lambda>n dev. if dev = ''/dev/ttyUSB0'' then Inr p
                             else Inl (SerialException ''could not open port'')),
      opens = 0, naps = [], released = [], has_qsize = True\<rparr>"

section \<open>Predicates of the statements\<close>

text \<open>The polling interval lies between the two bounds of \<open>read\<close>.\<close>

definition in_bounds :: "rounding \<Rightarrow> rat \<Rightarrow> bool" where
  "in_bounds fl t = (min_sleep_time fl \<le> t \<and> t \<le> max_sleep_time fl)"

fun pc_in_bounds :: "rounding \<Rightarrow> pc \<Rightarrow> bool" where
  "pc_in_bounds fl (InRead t) = in_bounds fl t"
| "pc_in_bounds fl InWrite = True"


text \<open>
  The discovery hook cannot be run from the search path and the package has no script;
  and: from the current call of \<open>serial.Serial\<close> on, the calls \<open>i \<in> I\<close> fail to open \<open>dev\<close>.
\<close>

definition hook_missing :: "world \<Rightarrow> bool" where
  "hook_missing w =
     ((case popen w ''which_tty_daq'' of Inl e \<Rightarrow> is_OSError e | Inr tty \<Rightarrow> False) \<and>
      \<not> path_exists w (package_script w))"

definition open_fails :: "world \<Rightarrow> string \<Rightarrow> nat \<Rightarrow> bool" where
  "open_fails w dev i =
     (case serial_open w (opens w + i) dev of Inl e \<Rightarrow> is_SerialException e | Inr p \<Rightarrow> False)"


text \<open>The port is open and its device shows no fault.\<close>

definition healthy :: "port \<Rightarrow> bool" where
  "healthy p = (is_open p \<and> fault p = None)"




section \<open>The line pattern and the grammar\<close>

lemma in_range_iff:
  assumes "hi < 256"
  shows "((lo::nat) \<le> of_char c \<and> (of_char c :: nat) \<le> hi) = (c \<in> set (map char_of [lo..<Suc hi]))"
proof
  assume a: "lo \<le> of_char c \<and> (of_char c :: nat) \<le> hi"
  have "c = char_of (of_char c :: nat)" by simp
  moreover have "(of_char c :: nat) \<in> set [lo..<Suc hi]" using a by auto
  ultimately show "c \<in> set (map char_of [lo..<Suc hi])" by (metis image_eqI set_map)
next
  assume "c \<in> set (map char_of [lo..<Suc hi])"
  then obtain n where n: "c = char_of n" "lo \<le> n" "n \<le> hi" by auto
  then have "(of_char c :: nat) = n" using assms by (simp add: of_char_of)
  then show "lo \<le> of_char c \<and> (of_char c :: nat) \<le> hi" using n by simp
qed

lemma lower: "map char_of [97..<Suc 122::nat] = ''abcdefghijklmnopqrstuvwxyz''" by code_simp
lemma upper: "map char_of [65..<Suc 90::nat] = ''ABCDEFGHIJKLMNOPQRSTUVWXYZ''" by code_simp
lemma digits: "map char_of [48..<Suc 57::nat] = ''0123456789''" by code_simp
lemma plusdot: "map char_of [43..<Suc 46::nat] = ''+,-.''" by code_simp

lemma in_class_LINE_CLASS: "in_class LINE_CLASS c = grammar_char c"
proof -
  have 1: "((97::nat) \<le> of_char c \<and> (of_char c :: nat) \<le> 122) = (c \<in> set ''abcdefghijklmnopqrstuvwxyz'')"
    using in_range_iff[of 122 97 c, unfolded lower] by simp
  have 2: "((65::nat) \<le> of_char c \<and> (of_char c :: nat) \<le> 90) = (c \<in> set ''ABCDEFGHIJKLMNOPQRSTUVWXYZ'')"
    using in_range_iff[of 90 65 c, unfolded upper] by simp
  have 3: "((48::nat) \<le> of_char c \<and> (of_char c :: nat) \<le> 57) = (c \<in> set ''0123456789'')"
    using in_range_iff[of 57 48 c, unfolded digits] by simp
  have 4: "((43::nat) \<le> of_char c \<and> (of_char c :: nat) \<le> 46) = (c \<in> set ''+,-.'')"
    using in_range_iff[of 46 43 c, unfolded plusdot] by simp
  have s: "\<And>d. ((of_char d :: nat) \<le> of_char c \<and> (of_char c :: nat) \<le> of_char d) = (c = d)"
    by (metis antisym of_char_eq_iff order_refl)
  have "in_class LINE_CLASS c =
     (((97::nat) \<le> of_char c \<and> (of_char c :: nat) \<le> 122) \<or>
      ((65::nat) \<le> of_char c \<and> (of_char c :: nat) \<le> 90) \<or>
      ((48::nat) \<le> of_char c \<and> (of_char c :: nat) \<le> 57) \<or>
      ((43::nat) \<le> of_char c \<and> (of_char c :: nat) \<le> 46) \<or>
      c \<in> set ('',:()=$/#?!%_@*|~'' @ [CHR 0x27, CHR '' '']))"
    unfolding LINE_CLASS_def
    apply (simp add: s del: of_char_Char)
    apply simp
    done
  also have "\<dots> = grammar_char c"
    unfolding 1 2 3 4 grammar_char_def is_letter_def is_digit_def spec_punctuation_def
    by auto
  finally show ?thesis .
qed

lemma in_class_EOL: "in_class EOL_CLASS c = is_crlf c"
proof -
  have s: "\<And>d. ((of_char d :: nat) \<le> of_char c \<and> (of_char c :: nat) \<le> of_char d) = (c = d)"
    by (metis antisym of_char_eq_iff order_refl)
  show ?thesis
    unfolding EOL_CLASS_def is_crlf_def by (simp add: s del: of_char_Char) blast
qed

lemma eol_tail_match:
  "re_match_here [StarClass EOL_CLASS, Eol] b s = list_all is_crlf s"
proof (induction s arbitrary: b)
  case Nil
  then show ?case by simp
next
  case (Cons c t)
  have "re_match_here [StarClass EOL_CLASS, Eol] b (c # t) =
          ((is_crlf c \<and> re_match_here [StarClass EOL_CLASS, Eol] False t) \<or> c # t = [LF])"
    by (simp add: in_class_EOL)
  also have "\<dots> = (is_crlf c \<and> list_all is_crlf t)"
    unfolding Cons.IH by (auto simp: is_crlf_def)
  finally show ?case by simp
qed

lemma line_match_split:
  "re_match_here [StarClass LINE_CLASS, StarClass EOL_CLASS, Eol] b s =
     (\<exists>p q. s = p @ q \<and> list_all grammar_char p \<and> list_all is_crlf q)"
proof (induction s arbitrary: b)
  case Nil
  then show ?case by simp
next
  case (Cons c t)
  have step: "re_match_here [StarClass LINE_CLASS, StarClass EOL_CLASS, Eol] b (c # t) =
          ((grammar_char c \<and> re_match_here [StarClass LINE_CLASS, StarClass EOL_CLASS, Eol] False t)
            \<or> list_all is_crlf (c # t))"
    apply (subst re_match_here.simps(4))
    apply (simp only: list.case in_class_LINE_CLASS eol_tail_match)
    done
  show ?case
  proof
    assume "re_match_here [StarClass LINE_CLASS, StarClass EOL_CLASS, Eol] b (c # t)"
    then consider (a) "grammar_char c" "re_match_here [StarClass LINE_CLASS, StarClass EOL_CLASS, Eol] False t"
      | (b) "list_all is_crlf (c # t)"
      using step by blast
    then show "\<exists>p q. c # t = p @ q \<and> list_all grammar_char p \<and> list_all is_crlf q"
    proof cases
      case a
      then obtain p q where "t = p @ q" "list_all grammar_char p" "list_all is_crlf q"
        using Cons.IH by blast
      then have "c # t = (c # p) @ q \<and> list_all grammar_char (c # p) \<and> list_all is_crlf q"
        using a by simp
      then show ?thesis by blast
    next
      case b
      then have "c # t = [] @ (c # t) \<and> list_all grammar_char [] \<and> list_all is_crlf (c # t)"
        by simp
      then show ?thesis by blast
    qed
  next
    assume "\<exists>p q. c # t = p @ q \<and> list_all grammar_char p \<and> list_all is_crlf q"
    then obtain p q where pq: "c # t = p @ q" "list_all grammar_char p" "list_all is_crlf q"
      by blast
    show "re_match_here [StarClass LINE_CLASS, StarClass EOL_CLASS, Eol] b (c # t)"
    proof (cases p)
      case Nil
      then show ?thesis using pq step by simp
    next
      case (Cons c' p')
      then have "c' = c" "t = p' @ q" "grammar_char c" "list_all grammar_char p'"
        using pq by auto
      then have "re_match_here [StarClass LINE_CLASS, StarClass EOL_CLASS, Eol] False t"
        using Cons.IH pq(3) by blast
      then show ?thesis using \<open>grammar_char c\<close> step by blast
    qed
  qed
qed

lemma grammar_not_crlf: "grammar_char c \<Longrightarrow> \<not> is_crlf c"
  by (auto simp: grammar_char_def is_crlf_def is_letter_def is_digit_def spec_punctuation_def)

lemma strip_eol_append_crlf: "list_all is_crlf q \<Longrightarrow> strip_eol (p @ q) = strip_eol p"
proof -
  assume "list_all is_crlf q"
  then have "\<And>x. x \<in> set (rev q) \<Longrightarrow> is_crlf x" by (simp add: list_all_iff)
  then have "dropWhile is_crlf (rev q @ rev p) = dropWhile is_crlf (rev p)"
    by (rule dropWhile_append2)
  then show ?thesis by (simp add: strip_eol_def)
qed

lemma strip_eol_grammar: "list_all grammar_char p \<Longrightarrow> strip_eol p = p"
proof -
  assume a: "list_all grammar_char p"
  have "dropWhile is_crlf (rev p) = rev p"
  proof (cases "rev p")
    case Nil
    then show ?thesis by simp
  next
    case (Cons x xs)
    then have "x \<in> set p" by (metis list.set_intros(1) set_rev)
    then have "\<not> is_crlf x" using a grammar_not_crlf by (simp add: list_all_iff)
    then show ?thesis using Cons by simp
  qed
  then show ?thesis by (simp add: strip_eol_def)
qed

lemma strip_eol_decompose:
  "s = strip_eol s @ rev (takeWhile is_crlf (rev s)) \<and> list_all is_crlf (rev (takeWhile is_crlf (rev s)))"
proof -
  have "rev (takeWhile is_crlf (rev s) @ dropWhile is_crlf (rev s)) = s"
    by (simp only: takeWhile_dropWhile_id rev_rev_ident)
  then have "s = strip_eol s @ rev (takeWhile is_crlf (rev s))"
    by (simp only: strip_eol_def rev_append)
  moreover have "list_all is_crlf (rev (takeWhile is_crlf (rev s)))"
    by (simp add: list_all_iff) (metis set_takeWhileD)
  ultimately show ?thesis by blast
qed

lemma line_pattern_iff: "re_match LINE_PATTERN s = list_all grammar_char (strip_eol s)"
proof -
  have "re_match LINE_PATTERN s =
          (\<exists>p q. s = p @ q \<and> list_all grammar_char p \<and> list_all is_crlf q)"
    by (simp add: re_match_def LINE_PATTERN_def line_match_split del: re_match_here.simps(4))
  also have "\<dots> = list_all grammar_char (strip_eol s)"
  proof
    assume "\<exists>p q. s = p @ q \<and> list_all grammar_char p \<and> list_all is_crlf q"
    then obtain p q where "s = p @ q" "list_all grammar_char p" "list_all is_crlf q" by blast
    then show "list_all grammar_char (strip_eol s)"
      by (simp add: strip_eol_append_crlf strip_eol_grammar)
  next
    assume "list_all grammar_char (strip_eol s)"
    then show "\<exists>p q. s = p @ q \<and> list_all grammar_char p \<and> list_all is_crlf q"
      using strip_eol_decompose by blast
  qed
  finally show ?thesis .
qed

lemma rstrip_crlf: "rstrip [CR, LF] s = strip_eol s"
proof -
  have "(\<lambda>c. c \<in> set [CR, LF]) = is_crlf" by (auto simp: is_crlf_def)
  then show ?thesis by (simp add: rstrip_def strip_eol_def)
qed

text \<open>
  C1. For every string \<open>L\<close> the validator returns \<open>L\<close> unchanged exactly when every
  character of \<open>L\<close> without its trailing CR/LF characters belongs to the grammar (letters,
  digits, the punctuation set, space), and then logs nothing; otherwise, and in
  particular whenever \<open>L\<close> contains a character that is neither in the grammar nor CR or
  LF, it returns \<open>None\<close> and appends exactly one warning to the log.
\<close>

theorem validate_line_grammar:
  "(fst (validate_line lg L) = Some L) = list_all grammar_char (strip_eol L) \<and>
   (list_all grammar_char (strip_eol L) \<longrightarrow> validate_line lg L = (Some L, lg)) \<and>
   (\<not> list_all grammar_char (strip_eol L) \<longrightarrow>
      validate_line lg L =
        (None, lg @ [(WARNING, ''Got garbage from the DAQ: '' @ strip_eol L)])) \<and>
   ((\<exists>c \<in> set L. \<not> grammar_char c \<and> \<not> is_crlf c) \<longrightarrow>
      validate_line lg L =
        (None, lg @ [(WARNING, ''Got garbage from the DAQ: '' @ strip_eol L)]))"
proof -
  have ok: "list_all grammar_char (strip_eol L) \<Longrightarrow> validate_line lg L = (Some L, lg)"
    by (simp add: validate_line_def line_pattern_iff)
  have bad: "\<not> list_all grammar_char (strip_eol L) \<Longrightarrow>
      validate_line lg L = (None, lg @ [(WARNING, ''Got garbage from the DAQ: '' @ strip_eol L)])"
    by (simp add: validate_line_def line_pattern_iff rstrip_crlf log_msg_def)
  have other: "\<not> list_all grammar_char (strip_eol L)"
    if "\<exists>c \<in> set L. \<not> grammar_char c \<and> \<not> is_crlf c"
  proof -
    from that obtain c where c: "c \<in> set L" "\<not> grammar_char c" "\<not> is_crlf c" by blast
    have "set L = set (strip_eol L) \<union> set (rev (takeWhile is_crlf (rev L)))"
      by (metis set_append strip_eol_decompose)
    moreover have "c \<notin> set (rev (takeWhile is_crlf (rev L)))"
      using c(3) strip_eol_decompose[of L] by (auto simp: list_all_iff)
    ultimately have "c \<in> set (strip_eol L)" using c(1) by blast
    then show ?thesis using c(2) by (auto simp: list_all_iff)
  qed
  have iff: "(fst (validate_line lg L) = Some L) = list_all grammar_char (strip_eol L)"
    using ok bad by (cases "list_all grammar_char (strip_eol L)") simp_all
  show ?thesis using ok bad other iff by blast
qed

theorem validate_line_grammar_witness:
  "(\<exists>c \<in> set ''RE {1''. \<not> grammar_char c \<and> \<not> is_crlf c) \<and>
   validate_line [] ''RE {1'' = (None, [(WARNING, ''Got garbage from the DAQ: RE {1'')]) \<and>
   list_all grammar_char (strip_eol (''ST 1'' @ [CR, LF])) \<and>
   validate_line [] (''ST 1'' @ [CR, LF]) = (Some (''ST 1'' @ [CR, LF]), [])"
proof -
  have h1: "\<exists>c \<in> set ''RE {1''. \<not> grammar_char c \<and> \<not> is_crlf c"
    by (simp add: grammar_char_def is_letter_def is_digit_def spec_punctuation_def is_crlf_def)
  have e1: "strip_eol ''RE {1'' = ''RE {1''"
    by (simp add: strip_eol_def is_crlf_def)
  have e2: "strip_eol (''ST 1'' @ [CR, LF]) = ''ST 1''"
    by (simp add: strip_eol_def is_crlf_def)
  have h2: "list_all grammar_char (strip_eol (''ST 1'' @ [CR, LF]))"
    unfolding e2
    by (simp add: grammar_char_def is_letter_def is_digit_def spec_punctuation_def)
  show ?thesis
    using h1 h2 validate_line_grammar [of "[]" "''RE {1''"]
      validate_line_grammar [of "[]" "''ST 1'' @ [CR, LF]"]
    by (simp add: e1)
qed

text \<open>
  C10. The empty string and every string made only of CR and LF characters, in any number
  and order, is accepted and returned unchanged; a CR or LF that is followed, anywhere
  later in the line, by a character other than CR and LF makes the validator reject the
  whole line.
\<close>

theorem validate_line_crlf:
  "validate_line lg [] = (Some [], lg) \<and>
   (list_all is_crlf L \<longrightarrow> validate_line lg L = (Some L, lg)) \<and>
   (is_crlf c \<and> \<not> list_all is_crlf q \<longrightarrow>
      fst (validate_line lg (p @ c # q)) = None \<and>
      length (snd (validate_line lg (p @ c # q))) = Suc (length lg))"
proof -
  have crlf: "validate_line lg L = (Some L, lg)" if "list_all is_crlf L" for L
  proof -
    have "strip_eol ([] @ L) = strip_eol []" using that by (rule strip_eol_append_crlf)
    moreover have "strip_eol [] = []" by (simp add: strip_eol_def)
    ultimately have "strip_eol L = []" by simp
    then have "list_all grammar_char (strip_eol L)" by simp
    then show ?thesis by (simp add: validate_line_def line_pattern_iff)
  qed
  have rej: "\<not> re_match LINE_PATTERN (p @ c # q)" if c: "is_crlf c" and q: "\<not> list_all is_crlf q"
  proof
    assume "re_match LINE_PATTERN (p @ c # q)"
    then obtain a t where at: "p @ c # q = a @ t" "list_all grammar_char a" "list_all is_crlf t"
      by (auto simp: re_match_def LINE_PATTERN_def line_match_split
          simp del: re_match_here.simps(4))
    have "\<not> length a > length p"
    proof
      assume "length a > length p"
      then have "a ! length p = (p @ c # q) ! length p" using at(1) by (simp add: nth_append)
      then have "c \<in> set a" using \<open>length a > length p\<close> by (metis nth_append_length nth_mem)
      then show False using at(2) c grammar_not_crlf by (auto simp: list_all_iff)
    qed
    then have "length a \<le> length p" by simp
    then have "drop (length p) (p @ c # q) = drop (length p - length a) t"
      using at(1) by simp
    then have "c # q = drop (length p - length a) t" by simp
    then have "set q \<subseteq> set t" by (metis set_drop_subset set_subset_Cons subset_trans list.simps(15))
    then show False using at(3) q by (auto simp: list_all_iff)
  qed
  show ?thesis using crlf[of "[]"] crlf[of L] rej
    by (auto simp: validate_line_def log_msg_def)
qed

theorem validate_line_crlf_witness:
  "list_all is_crlf [CR, LF, LF, CR] \<and>
   validate_line [] [CR, LF, LF, CR] = (Some [CR, LF, LF, CR], []) \<and>
   is_crlf LF \<and> \<not> list_all is_crlf ''RE'' \<and>
   fst (validate_line [] (''DS'' @ LF # ''RE'')) = None \<and>
   length (snd (validate_line [] (''DS'' @ LF # ''RE''))) = Suc 0"
proof -
  have h1: "list_all is_crlf [CR, LF, LF, CR]" by (simp add: is_crlf_def)
  have h2: "is_crlf LF \<and> \<not> list_all is_crlf ''RE''" by (simp add: is_crlf_def)
  show ?thesis
    using h1 h2 validate_line_crlf [of "[]" "[CR, LF, LF, CR]" LF "''RE''" "''DS''"]
    by simp
qed

section \<open>DAQProvider.get\<close>

lemma validate_line_cases:
  "validate_line lg line = (Some line, lg) \<or>
   validate_line lg line = (None, lg @ [(WARNING, ''Got garbage from the DAQ: '' @ rstrip [CR, LF] line)])"
  by (simp add: validate_line_def log_msg_def)

lemma DAQProvider_get_Some:
  "fst (DAQProvider_get wt pr) = Returned (Some l) \<Longrightarrow> fst (validate_line lg l) = Some l"
  by (auto simp: DAQProvider_get_def queue_get_def get_nowait_def validate_line_def
      split: list.splits wait.splits if_splits)

text \<open>
  C9. A \<open>get\<close> that dequeues a line failing validation returns \<open>None\<close> with the line
  removed from the outbound queue (and one warning logged); no later \<open>get\<close>, in any
  state of the provider, returns that line.
\<close>

theorem DAQProvider_get_drops_rejected_line:
  "out_queue (daq pr) = line # rest \<and> fst (validate_line (logger (daq pr)) line) = None \<longrightarrow>
     DAQProvider_get wt pr =
       (Returned None,
        pr\<lparr>daq := (daq pr)\<lparr>out_queue := rest,
              logger := logger (daq pr) @
                [(WARNING, ''Got garbage from the DAQ: '' @ rstrip [CR, LF] line)]\<rparr>\<rparr>) \<and>
     (\<forall>wt' pr'. fst (DAQProvider_get wt' pr') \<noteq> Returned (Some line))"
proof (intro impI conjI allI)
  assume a: "out_queue (daq pr) = line # rest \<and> fst (validate_line (logger (daq pr)) line) = None"
  then have v: "validate_line (logger (daq pr)) line =
      (None, logger (daq pr) @ [(WARNING, ''Got garbage from the DAQ: '' @ rstrip [CR, LF] line)])"
    using validate_line_cases[of "logger (daq pr)" line] by auto
  show "DAQProvider_get wt pr =
       (Returned None,
        pr\<lparr>daq := (daq pr)\<lparr>out_queue := rest,
              logger := logger (daq pr) @
                [(WARNING, ''Got garbage from the DAQ: '' @ rstrip [CR, LF] line)]\<rparr>\<rparr>)"
    using a by (simp add: DAQProvider_get_def queue_get_def get_nowait_def v)
  fix wt' pr'
  show "fst (DAQProvider_get wt' pr') \<noteq> Returned (Some line)"
  proof
    assume "fst (DAQProvider_get wt' pr') = Returned (Some line)"
    then have "fst (validate_line (logger (daq pr)) line) = Some line"
      by (rule DAQProvider_get_Some)
    then show False using a by simp
  qed
qed

lemma garbage_rejected: "fst (validate_line lg ''RE {1'') = None"
proof -
  have "\<not> list_all grammar_char (strip_eol ''RE {1'')"
    by (simp add: strip_eol_def is_crlf_def grammar_char_def is_letter_def is_digit_def
        spec_punctuation_def)
  then show ?thesis by (simp add: validate_line_def line_pattern_iff)
qed

theorem DAQProvider_get_drops_rejected_line_witness:
  "out_queue (daq ((new_provider idle_port)\<lparr>daq := (new_conn idle_port)\<lparr>out_queue := [''RE {1'', ''ST'']\<rparr>\<rparr>))
     = ''RE {1'' # [''ST''] \<and>
   fst (validate_line [] ''RE {1'') = None \<and>
   DAQProvider_get NoWait
     ((new_provider idle_port)\<lparr>daq := (new_conn idle_port)\<lparr>out_queue := [''RE {1'', ''ST'']\<rparr>\<rparr>) =
     (Returned None,
      (new_provider idle_port)\<lparr>daq := (new_conn idle_port)\<lparr>out_queue := [''ST''],
         logger := [(WARNING, ''Got garbage from the DAQ: RE {1'')]\<rparr>\<rparr>) \<and>
   fst (DAQProvider_get NoWait
      ((new_provider idle_port)\<lparr>daq := (new_conn idle_port)\<lparr>out_queue := [''ST''],
         logger := [(WARNING, ''Got garbage from the DAQ: RE {1'')]\<rparr>\<rparr>)) \<noteq> Returned (Some ''RE {1'')"
proof -
  have r: "rstrip [CR, LF] ''RE {1'' = ''RE {1''" by (simp add: rstrip_def)
  show ?thesis
    using DAQProvider_get_drops_rejected_line
      [of "(new_provider idle_port)\<lparr>daq := (new_conn idle_port)\<lparr>out_queue := [''RE {1'', ''ST'']\<rparr>\<rparr>"
        "''RE {1''" "[''ST'']" NoWait]
      garbage_rejected[of "[]"]
    by (simp add: new_provider_def new_conn_def r)
qed

text \<open>
  C8 as stated fails: a non-blocking \<open>get\<close> on the empty queue of a new provider does not
  yield a value, it raises the exception \<open>DAQIOError\<close>.
\<close>

theorem DAQProvider_get_empty_raises:
  "fst (DAQProvider_get NoWait (new_provider idle_port)) = Raised (DAQIOError ''Queue is empty'')"
  by (simp add: DAQProvider_get_def queue_get_def get_nowait_def new_provider_def new_conn_def)

text \<open>
  C8, amended. A non-blocking \<open>get\<close> (or one whose timeout expires) on an empty outbound
  queue raises \<open>DAQIOError("Queue is empty")\<close> and leaves the provider unchanged; this
  outcome differs from the \<open>None\<close> that is returned when a dequeued line fails validation.
\<close>

theorem DAQProvider_get_empty_queue:
  "(out_queue (daq pr) = [] \<longrightarrow>
      DAQProvider_get NoWait pr = (Raised (DAQIOError ''Queue is empty''), pr) \<and>
      DAQProvider_get (Timeout t) pr = (Raised (DAQIOError ''Queue is empty''), pr)) \<and>
   (out_queue (daq pr) = line # rest \<and> fst (validate_line (logger (daq pr)) line) = None \<longrightarrow>
      fst (DAQProvider_get NoWait pr) = Returned None) \<and>
   Raised (DAQIOError ''Queue is empty'') \<noteq> (Returned None :: string option outcome)"
proof -
  have e: "out_queue (daq pr) = [] \<Longrightarrow> pr\<lparr>daq := (daq pr)\<lparr>out_queue := []\<rparr>\<rparr> = pr"
    by (cases pr) (auto simp: conn.defs)
  show ?thesis
    by (auto simp: DAQProvider_get_def queue_get_def get_nowait_def e split: prod.splits)
qed

theorem DAQProvider_get_empty_queue_witness:
  "out_queue (daq (new_provider idle_port)) = [] \<and>
   DAQProvider_get NoWait (new_provider idle_port) =
     (Raised (DAQIOError ''Queue is empty''), new_provider idle_port) \<and>
   out_queue (daq ((new_provider idle_port)\<lparr>daq := (new_conn idle_port)\<lparr>out_queue := [''RE {1'']\<rparr>\<rparr>))
     = ''RE {1'' # [] \<and>
   fst (DAQProvider_get NoWait
      ((new_provider idle_port)\<lparr>daq := (new_conn idle_port)\<lparr>out_queue := [''RE {1'']\<rparr>\<rparr>)) = Returned None"
  using DAQProvider_get_empty_queue [where pr = "new_provider idle_port" and t = 0]
    DAQProvider_get_empty_queue
      [where pr = "(new_provider idle_port)\<lparr>daq := (new_conn idle_port)\<lparr>out_queue := [''RE {1'']\<rparr>\<rparr>"
        and line = "''RE {1''" and rest = "[]"]
    garbage_rejected[of "[]"]
  by (simp add: new_provider_def new_conn_def)

section \<open>The polling interval\<close>

lemma rounds_bounds_ordered: "rounds fl \<Longrightarrow> 0 \<le> min_sleep_time fl \<and> min_sleep_time fl \<le> max_sleep_time fl"
proof -
  assume r: "rounds fl"
  then have m: "mono fl" and z: "fl 0 = 0" by (simp_all add: rounds_def)
  have "fl 0 \<le> fl (1/100)" using m by (rule monoD) simp
  moreover have "fl (1/100) \<le> fl (1/5)" using m by (rule monoD) simp
  ultimately show ?thesis using z by (simp add: min_sleep_time_def max_sleep_time_def)
qed

lemma speed_up_in_bounds:
  assumes "rounds fl" "in_bounds fl t"
  shows "in_bounds fl (speed_up fl t)"
proof -
  have m: "mono fl" and i: "fl (max_sleep_time fl) = max_sleep_time fl"
    using assms(1) by (simp_all add: rounds_def max_sleep_time_def)
  have o: "0 \<le> min_sleep_time fl" "min_sleep_time fl \<le> max_sleep_time fl"
    using rounds_bounds_ordered[OF assms(1)] by simp_all
  have "t / 2 \<le> max_sleep_time fl" using assms(2) o by (simp add: in_bounds_def)
  then have "fl (t / 2) \<le> fl (max_sleep_time fl)" using m by (rule monoD[rotated])
  then have "fl (t / 2) \<le> max_sleep_time fl" using i by simp
  then show ?thesis using o by (simp add: in_bounds_def speed_up_def)
qed

lemma slow_down_in_bounds:
  assumes "rounds fl" "in_bounds fl t"
  shows "in_bounds fl (slow_down fl t)"
proof -
  have m: "mono fl" and i: "fl (min_sleep_time fl) = min_sleep_time fl"
    using assms(1) by (simp_all add: rounds_def min_sleep_time_def)
  have o: "0 \<le> min_sleep_time fl" "min_sleep_time fl \<le> max_sleep_time fl"
    using rounds_bounds_ordered[OF assms(1)] by simp_all
  have "min_sleep_time fl \<le> 3/2 * t" using assms(2) o by (simp add: in_bounds_def)
  then have "fl (min_sleep_time fl) \<le> fl (3/2 * t)" using m by (rule monoD[rotated])
  then have "min_sleep_time fl \<le> fl (3/2 * t)" using i by simp
  then show ?thesis using o by (simp add: in_bounds_def slow_down_def)
qed

lemma read_try_sleep_time:
  "read_try emit fl w p k t = (r, w', p', k', t') \<Longrightarrow>
     t' = t \<or> t' = speed_up fl t \<or> t' = slow_down fl t"
  unfolding read_try_def
  by (auto split: sum.splits prod.splits if_splits option.splits)

lemma read_try_in_bounds:
  assumes "rounds fl" "in_bounds fl t" "read_try emit fl w p k t = (r, w', p', k', t')"
  shows "in_bounds fl t'"
  using read_try_sleep_time[OF assms(3)] assms(2)
    speed_up_in_bounds[OF assms(1,2)] slow_down_in_bounds[OF assms(1,2)]
  by auto

lemma DAQConnection_read_iteration_in_bounds:
  assumes "rounds fl" "in_bounds fl t" "DAQConnection_read_iteration fl w c t = Some (r, w', c', t')"
  shows "in_bounds fl t'"
proof -
  obtain r1 w1 p1 q1 t1 where rt: "read_try put_line fl w (serial_port c) (out_queue c) t = (r1, w1, p1, q1, t1)"
    by (metis prod_cases5)
  then have "in_bounds fl t1" by (rule read_try_in_bounds[OF assms(1,2)])
  moreover have "t' = t1" using assms(3) rt
    by (auto simp: DAQConnection_read_iteration_def split: option.splits prod.splits)
  ultimately show ?thesis by simp
qed

lemma DAQServer_read_iteration_in_bounds:
  assumes "rounds fl" "in_bounds fl t" "DAQServer_read_iteration fl w s t = Some (r, w', s', t')"
  shows "in_bounds fl t'"
proof -
  obtain r1 w1 p1 k1 t1 where rt: "read_try sock_send fl w (serial_port s) (socket s) t = (r1, w1, p1, k1, t1)"
    by (metis prod_cases5)
  then have "in_bounds fl t1" by (rule read_try_in_bounds[OF assms(1,2)])
  moreover have "t' = t1" using assms(3) rt
    by (auto simp: DAQServer_read_iteration_def split: option.splits prod.splits)
  ultimately show ?thesis by simp
qed

lemma DAQConnection_read_n_in_bounds:
  "rounds fl \<Longrightarrow> in_bounds fl t \<Longrightarrow> DAQConnection_read_n n fl w c t = Some (r, w', c', t')
     \<Longrightarrow> in_bounds fl t'"
proof (induction n arbitrary: w c t)
  case 0
  then show ?case by simp
next
  case (Suc n)
  show ?case
  proof (cases "running c")
    case False
    then show ?thesis using Suc.prems by simp
  next
    case True
    then obtain r1 w1 c1 t1 where it: "DAQConnection_read_iteration fl w c t = Some (r1, w1, c1, t1)"
      using Suc.prems(3) by (auto split: option.splits)
    then have b: "in_bounds fl t1"
      using DAQConnection_read_iteration_in_bounds Suc.prems(1,2) by blast
    show ?thesis
    proof (cases r1)
      case None
      then have "DAQConnection_read_n n fl w1 c1 t1 = Some (r, w', c', t')"
        using Suc.prems(3) True it by simp
      then show ?thesis using Suc.IH Suc.prems(1) b by blast
    next
      case (Some e)
      then have "t' = t1" using Suc.prems(3) True it by simp
      then show ?thesis using b by simp
    qed
  qed
qed

lemma serve_step_in_bounds:
  assumes "rounds fl" "pc_in_bounds fl pos" "serve_step fl w s pos = Some (r, w', s', pos')"
  shows "pc_in_bounds fl pos'"
proof (cases pos)
  case (InRead t)
  then show ?thesis
    using assms DAQServer_read_iteration_in_bounds[OF assms(1), of t w s]
    by (auto simp: serve_step_def split: if_splits option.splits)
next
  case InWrite
  then show ?thesis
    using assms rounds_bounds_ordered[OF assms(1)]
    by (auto simp: serve_step_def in_bounds_def split: if_splits option.splits)
qed

lemma serve_n_in_bounds:
  "rounds fl \<Longrightarrow> pc_in_bounds fl pos \<Longrightarrow> serve_n n fl w s pos = Some (r, w', s', pos')
     \<Longrightarrow> pc_in_bounds fl pos'"
proof (induction n arbitrary: w s pos)
  case 0
  then show ?case by simp
next
  case (Suc n)
  obtain r1 w1 s1 pos1 where st: "serve_step fl w s pos = Some (r1, w1, s1, pos1)"
    using Suc.prems(3) by (auto split: option.splits)
  then have b: "pc_in_bounds fl pos1" using serve_step_in_bounds Suc.prems(1,2) by blast
  show ?case
  proof (cases r1)
    case None
    then have "serve_n n fl w1 s1 pos1 = Some (r, w', s', pos')"
      using Suc.prems(3) st by simp
    then show ?thesis using Suc.IH Suc.prems(1) b by blast
  next
    case (Some e)
    then have "pos' = pos1" using Suc.prems(3) st by simp
    then show ?thesis using b by simp
  qed
qed

lemma read_try_idle:
  "is_open p \<Longrightarrow> fault p = None \<Longrightarrow> rx p = [] \<Longrightarrow>
     read_try emit fl w p k t = (None, sleep (slow_down fl t) w, p, k, slow_down fl t)"
  by (simp add: read_try_def inWaiting_def port_op_def)

lemma read_try_pending:
  "is_open p \<Longrightarrow> fault p = None \<Longrightarrow> rx p \<noteq> [] \<Longrightarrow> drain emit p k = (None, p2, k2) \<Longrightarrow>
     read_try emit fl w p k t = (None, sleep (speed_up fl t) w, p2, k2, speed_up fl t)"
  by (simp add: read_try_def inWaiting_def port_op_def)

text \<open>
  C5. Under a monotone rounding that fixes zero and the two bounds, the polling interval
  starts at the lower bound (10 ms) and stays between the lower and the upper bound
  (200 ms) after any number of iterations of \<open>DAQConnection.read\<close> and at every position
  of \<open>serve\<close> inside \<open>DAQServer.read\<close>, from any state of the port and of the platform. An
  iteration that finds data and drains it halves the interval, with the lower bound as
  floor; an iteration that finds none multiplies it by 1.5, with the upper bound as
  ceiling.
\<close>

theorem backoff_interval_bounded:
  assumes "rounds fl"
  shows "in_bounds fl (min_sleep_time fl) \<and>
    (\<forall>n w c r w' c' t'.
       DAQConnection_read_n n fl w c (min_sleep_time fl) = Some (r, w', c', t') \<longrightarrow>
       in_bounds fl t') \<and>
    (\<forall>n w s r w' s' t'.
       serve_n n fl w s (InRead (min_sleep_time fl)) = Some (r, w', s', InRead t') \<longrightarrow>
       in_bounds fl t') \<and>
    (\<forall>t. in_bounds fl t \<longrightarrow> in_bounds fl (speed_up fl t) \<and> in_bounds fl (slow_down fl t)) \<and>
    (\<forall>t. speed_up fl t = max (fl (t / 2)) (min_sleep_time fl) \<and>
         slow_down fl t = min (fl (3/2 * t)) (max_sleep_time fl)) \<and>
    (\<forall>w c t p2 q2.
       is_open (serial_port c) \<and> fault (serial_port c) = None \<and> rx (serial_port c) \<noteq> [] \<and>
       drain put_line (serial_port c) (out_queue c) = (None, p2, q2) \<longrightarrow>
       DAQConnection_read_iteration fl w c t =
         Some (None, sleep (speed_up fl t) w, c\<lparr>serial_port := p2, out_queue := q2\<rparr>, speed_up fl t)) \<and>
    (\<forall>w c t.
       is_open (serial_port c) \<and> fault (serial_port c) = None \<and> rx (serial_port c) = [] \<longrightarrow>
       DAQConnection_read_iteration fl w c t = Some (None, sleep (slow_down fl t) w, c, slow_down fl t)) \<and>
    (\<forall>w s t p2 k2.
       is_open (serial_port s) \<and> fault (serial_port s) = None \<and> rx (serial_port s) \<noteq> [] \<and>
       drain sock_send (serial_port s) (socket s) = (None, p2, k2) \<longrightarrow>
       DAQServer_read_iteration fl w s t =
         Some (None, sleep (speed_up fl t) w, s\<lparr>serial_port := p2, socket := k2\<rparr>, speed_up fl t)) \<and>
    (\<forall>w s t.
       is_open (serial_port s) \<and> fault (serial_port s) = None \<and> rx (serial_port s) = [] \<longrightarrow>
       DAQServer_read_iteration fl w s t = Some (None, sleep (slow_down fl t) w, s, slow_down fl t))"
proof -
  have start: "in_bounds fl (min_sleep_time fl)"
    using rounds_bounds_ordered[OF assms] by (simp add: in_bounds_def)
  have conn: "in_bounds fl t'"
    if "DAQConnection_read_n n fl w c (min_sleep_time fl) = Some (r, w', c', t')"
    for n w c r w' c' t'
    using DAQConnection_read_n_in_bounds[OF assms start that] .
  have srv: "in_bounds fl t'"
    if "serve_n n fl w s (InRead (min_sleep_time fl)) = Some (r, w', s', InRead t')"
    for n w s r w' s' t'
  proof -
    have "pc_in_bounds fl (InRead (min_sleep_time fl))" using start by simp
    then have "pc_in_bounds fl (InRead t')" using serve_n_in_bounds[OF assms _ that] by blast
    then show ?thesis by simp
  qed
  have steps: "in_bounds fl (speed_up fl t) \<and> in_bounds fl (slow_down fl t)" if "in_bounds fl t" for t
    using speed_up_in_bounds[OF assms that] slow_down_in_bounds[OF assms that] by simp
  have defs: "speed_up fl t = max (fl (t / 2)) (min_sleep_time fl) \<and>
         slow_down fl t = min (fl (3/2 * t)) (max_sleep_time fl)" for t
    by (simp add: speed_up_def slow_down_def)
  have cpend: "DAQConnection_read_iteration fl w c t =
         Some (None, sleep (speed_up fl t) w, c\<lparr>serial_port := p2, out_queue := q2\<rparr>, speed_up fl t)"
    if "is_open (serial_port c) \<and> fault (serial_port c) = None \<and> rx (serial_port c) \<noteq> [] \<and>
       drain put_line (serial_port c) (out_queue c) = (None, p2, q2)" for w c t p2 q2
  proof -
    have "read_try put_line fl w (serial_port c) (out_queue c) t =
        (None, sleep (speed_up fl t) w, p2, q2, speed_up fl t)"
      by (rule read_try_pending) (use that in simp_all)
    then show ?thesis by (simp add: DAQConnection_read_iteration_def)
  qed
  have cidle: "DAQConnection_read_iteration fl w c t = Some (None, sleep (slow_down fl t) w, c, slow_down fl t)"
    if "is_open (serial_port c) \<and> fault (serial_port c) = None \<and> rx (serial_port c) = []" for w c t
  proof -
    have "read_try put_line fl w (serial_port c) (out_queue c) t =
        (None, sleep (slow_down fl t) w, serial_port c, out_queue c, slow_down fl t)"
      by (rule read_try_idle) (use that in simp_all)
    then show ?thesis by (simp add: DAQConnection_read_iteration_def)
  qed
  have spend: "DAQServer_read_iteration fl w s t =
         Some (None, sleep (speed_up fl t) w, s\<lparr>serial_port := p2, socket := k2\<rparr>, speed_up fl t)"
    if "is_open (serial_port s) \<and> fault (serial_port s) = None \<and> rx (serial_port s) \<noteq> [] \<and>
       drain sock_send (serial_port s) (socket s) = (None, p2, k2)" for w s t p2 k2
  proof -
    have "read_try sock_send fl w (serial_port s) (socket s) t =
        (None, sleep (speed_up fl t) w, p2, k2, speed_up fl t)"
      by (rule read_try_pending) (use that in simp_all)
    then show ?thesis by (simp add: DAQServer_read_iteration_def)
  qed
  have sidle: "DAQServer_read_iteration fl w s t = Some (None, sleep (slow_down fl t) w, s, slow_down fl t)"
    if "is_open (serial_port s) \<and> fault (serial_port s) = None \<and> rx (serial_port s) = []" for w s t
  proof -
    have "read_try sock_send fl w (serial_port s) (socket s) t =
        (None, sleep (slow_down fl t) w, serial_port s, socket s, slow_down fl t)"
      by (rule read_try_idle) (use that in simp_all)
    then show ?thesis by (simp add: DAQServer_read_iteration_def)
  qed
  show ?thesis
    apply (intro conjI allI impI)
    subgoal by (rule start)
    subgoal by (erule conn)
    subgoal by (erule srv)
    subgoal using steps by blast
    subgoal using steps by blast
    subgoal using defs by blast
    subgoal using defs by blast
    subgoal by (erule cpend)
    subgoal by (erule cidle)
    subgoal by (erule spend)
    subgoal by (erule sidle)
    done
qed

theorem backoff_interval_bounded_witness:
  "rounds (\<lambda>x. x) \<and>
   min_sleep_time (\<lambda>x. x) = 1/100 \<and> max_sleep_time (\<lambda>x. x) = 1/5 \<and>
   snd (snd (snd (the (DAQConnection_read_n 3 (\<lambda>x. x) (lab_world idle_port)
      (new_conn (idle_port\<lparr>rx := ''DS'' @ [CR, LF]\<rparr>)) (min_sleep_time (\<lambda>x. x)))))) = 9/400 \<and>
   in_bounds (\<lambda>x. x) (9/400)"
proof -
  have r: "rounds (\<lambda>x. x)" by (simp add: rounds_def mono_def)
  have run: "DAQConnection_read_n 3 (\<lambda>x. x) (lab_world idle_port)
      (new_conn (idle_port\<lparr>rx := ''DS'' @ [CR, LF]\<rparr>)) (min_sleep_time (\<lambda>x. x)) \<noteq> None \<and>
      snd (snd (snd (the (DAQConnection_read_n 3 (\<lambda>x. x) (lab_world idle_port)
      (new_conn (idle_port\<lparr>rx := ''DS'' @ [CR, LF]\<rparr>)) (min_sleep_time (\<lambda>x. x)))))) = 9/400"
    by code_simp
  then obtain e w' c' where
    "DAQConnection_read_n 3 (\<lambda>x. x) (lab_world idle_port)
      (new_conn (idle_port\<lparr>rx := ''DS'' @ [CR, LF]\<rparr>)) (min_sleep_time (\<lambda>x. x)) = Some (e, w', c', 9/400)"
    by (metis option.collapse prod.collapse)
  then have "in_bounds (\<lambda>x. x) (9/400)"
    by (rule backoff_interval_bounded [OF r, THEN conjunct2, THEN conjunct1, rule_format])
  then show ?thesis using r run by (simp add: min_sleep_time_def max_sleep_time_def)
qed

section \<open>Acquiring the serial port\<close>

lemma get_dev_path_update [simp]:
  "get_dev_path (w\<lparr>opens := n\<rparr>) s = get_dev_path w s"
  "get_dev_path (w\<lparr>naps := l\<rparr>) s = get_dev_path w s"
  "get_dev_path (w\<lparr>released := ps\<rparr>) s = get_dev_path w s"
  by (simp_all add: get_dev_path_def)

lemma find_dev_update [simp]:
  "find_dev (w\<lparr>opens := n\<rparr>) = find_dev w"
  "find_dev (w\<lparr>naps := l\<rparr>) = find_dev w"
  "find_dev (w\<lparr>released := ps\<rparr>) = find_dev w"
  "find_dev (sleep t w) = find_dev w"
  "find_dev (release p w) = find_dev w"
  by (simp_all add: find_dev_def sleep_def release_def cong: sum.case_cong if_cong)

lemma find_dev_missing:
  "hook_missing w \<Longrightarrow> find_dev w = Inl (OSError ''Can not find binary which_tty_daq'')"
  by (auto simp: hook_missing_def find_dev_def get_dev_path_def split: sum.splits)

lemma try_connect_missing:
  "hook_missing w \<Longrightarrow>
     try_connect lg w = (Inl (OSError ''Can not find binary which_tty_daq''), lg, w)"
  by (simp add: try_connect_def find_dev_missing)

lemma try_connect_fail:
  "find_dev w = Inr dev \<Longrightarrow> open_fails w dev 0 \<Longrightarrow>
     \<exists>lg'. try_connect lg w = (Inr None, lg', sleep 5 (w\<lparr>opens := Suc (opens w)\<rparr>))"
  by (auto simp: try_connect_def open_fails_def Let_def split: sum.splits)

lemma try_connect_ok:
  "find_dev w = Inr dev \<Longrightarrow> serial_open w (opens w) dev = Inr p \<Longrightarrow>
     \<exists>lg'. try_connect lg w = (Inr (Some p), lg', w\<lparr>opens := Suc (opens w)\<rparr>)"
  by (auto simp: try_connect_def Let_def)

lemma open_fails_shift:
  "open_fails (sleep 5 (w\<lparr>opens := Suc (opens w)\<rparr>)) dev i = open_fails w dev (Suc i)"
  by (simp add: open_fails_def sleep_def)

lemma serial_open_shift:
  "serial_open (sleep 5 (w\<lparr>opens := Suc (opens w)\<rparr>)) = serial_open w"
  "opens (sleep 5 (w\<lparr>opens := Suc (opens w)\<rparr>)) = Suc (opens w)"
  "naps (sleep 5 (w\<lparr>opens := Suc (opens w)\<rparr>)) = naps w @ [5]"
  by (simp_all add: sleep_def)

lemma get_serial_port_after_failures:
  "find_dev w = Inr dev \<Longrightarrow> (\<forall>i<n. open_fails w dev i) \<Longrightarrow>
   serial_open w (opens w + n) dev = Inr p \<Longrightarrow>
     \<exists>lg'. get_serial_port lg w =
       Some (Inr p, lg', w\<lparr>opens := opens w + n + 1, naps := naps w @ replicate n 5\<rparr>)"
proof (induction n arbitrary: lg w)
  case 0
  then obtain lg' where "try_connect lg w = (Inr (Some p), lg', w\<lparr>opens := Suc (opens w)\<rparr>)"
    using try_connect_ok[of w dev p lg] by auto
  then show ?case by (subst get_serial_port.simps) simp
next
  case (Suc n)
  let ?w = "sleep 5 (w\<lparr>opens := Suc (opens w)\<rparr>)"
  have f0: "open_fails w dev 0" using Suc.prems(2) by simp
  then obtain lg1 where t: "try_connect lg w = (Inr None, lg1, ?w)"
    using try_connect_fail[OF Suc.prems(1), of lg] by auto
  have 1: "find_dev ?w = Inr dev" using Suc.prems(1) by simp
  have 2: "\<forall>i<n. open_fails ?w dev i" using Suc.prems(2) by (simp add: open_fails_shift)
  have 3: "serial_open ?w (opens ?w + n) dev = Inr p"
    using Suc.prems(3) by (simp add: serial_open_shift)
  obtain lg' where r: "get_serial_port lg1 ?w =
       Some (Inr p, lg', ?w\<lparr>opens := opens ?w + n + 1, naps := naps ?w @ replicate n 5\<rparr>)"
    using Suc.IH[OF 1 2 3] by blast
  have "?w\<lparr>opens := opens ?w + n + 1, naps := naps ?w @ replicate n 5\<rparr> =
        w\<lparr>opens := opens w + Suc n + 1, naps := naps w @ replicate (Suc n) 5\<rparr>"
    by (simp add: sleep_def replicate_append_same)
  then have "get_serial_port lg w =
       Some (Inr p, lg', w\<lparr>opens := opens w + Suc n + 1, naps := naps w @ replicate (Suc n) 5\<rparr>)"
    using r t by (subst get_serial_port.simps) simp
  then show ?case by blast
qed

lemma get_serial_port_n_failures:
  "find_dev w = Inr dev \<Longrightarrow> (\<forall>i<n. open_fails w dev i) \<Longrightarrow>
     \<exists>lg'. get_serial_port_n n lg w =
       (None, lg', w\<lparr>opens := opens w + n, naps := naps w @ replicate n 5\<rparr>)"
proof (induction n arbitrary: lg w)
  case 0
  then show ?case by simp
next
  case (Suc n)
  let ?w = "sleep 5 (w\<lparr>opens := Suc (opens w)\<rparr>)"
  have f0: "open_fails w dev 0" using Suc.prems(2) by simp
  then obtain lg1 where t: "try_connect lg w = (Inr None, lg1, ?w)"
    using try_connect_fail[OF Suc.prems(1), of lg] by auto
  have 1: "find_dev ?w = Inr dev" using Suc.prems(1) by simp
  have 2: "\<forall>i<n. open_fails ?w dev i" using Suc.prems(2) by (simp add: open_fails_shift)
  obtain lg' where r: "get_serial_port_n n lg1 ?w =
       (None, lg', ?w\<lparr>opens := opens ?w + n, naps := naps ?w @ replicate n 5\<rparr>)"
    using Suc.IH[OF 1 2] by blast
  have "?w\<lparr>opens := opens ?w + n, naps := naps ?w @ replicate n 5\<rparr> =
        w\<lparr>opens := opens w + Suc n, naps := naps w @ replicate (Suc n) 5\<rparr>"
    by (simp add: sleep_def replicate_append_same)
  then show ?case using r t by simp
qed

lemma get_serial_port_never_returns:
  assumes "get_serial_port lg w = Some r"
  shows "\<not> (find_dev w = Inr dev \<and> (\<forall>i. open_fails w dev i))"
proof (rule get_serial_port.raw_induct
    [where P = "\<lambda>lg w r. \<not> (find_dev w = Inr dev \<and> (\<forall>i. open_fails w dev i))", OF _ assms])
  fix f :: "logger \<Rightarrow> world \<Rightarrow> ((exn + port) \<times> logger \<times> world) option" and lg w r
  assume IH: "\<And>lg w r. f lg w = Some r \<Longrightarrow> \<not> (find_dev w = Inr dev \<and> (\<forall>i. open_fails w dev i))"
  assume body: "(case try_connect lg w of
        (Inl e, lg', w') \<Rightarrow> Some (Inl e, lg', w')
      | (Inr None, lg', w') \<Rightarrow> f lg' w'
      | (Inr (Some p), lg', w') \<Rightarrow>
          Some (Inr p, log_msg INFO ''Successfully connected to serial port'' lg', w')) = Some r"
  show "\<not> (find_dev w = Inr dev \<and> (\<forall>i. open_fails w dev i))"
  proof
    assume a: "find_dev w = Inr dev \<and> (\<forall>i. open_fails w dev i)"
    let ?w = "sleep 5 (w\<lparr>opens := Suc (opens w)\<rparr>)"
    obtain lg1 where t: "try_connect lg w = (Inr None, lg1, ?w)"
      using try_connect_fail[of w dev lg] a by auto
    then have "f lg1 ?w = Some r" using body by simp
    then have "\<not> (find_dev ?w = Inr dev \<and> (\<forall>i. open_fails ?w dev i))" by (rule IH)
    then show False using a by (simp add: open_fails_shift)
  qed
qed

text \<open>
  C6. When the discovery hook cannot be run from the search path and the package has no
  script, \<open>get_serial_port\<close> raises \<open>OSError\<close> at once: no open is attempted, no pause is
  taken, nothing is logged. When the hook resolves a device, every failure to open it is
  followed by a pause of 5 seconds and another attempt: after \<open>n\<close> failures and a success
  the port is returned with \<open>n\<close> pauses taken, and while every attempt fails the call never
  returns, having made \<open>m\<close> attempts and taken \<open>m\<close> pauses after \<open>m\<close> passes, for every \<open>m\<close>.
\<close>

theorem get_serial_port_failure_modes:
  "(hook_missing w \<longrightarrow>
      get_serial_port lg w = Some (Inl (OSError ''Can not find binary which_tty_daq''), lg, w)) \<and>
   (find_dev w = Inr dev \<and> (\<forall>i<n. open_fails w dev i) \<and>
    serial_open w (opens w + n) dev = Inr p \<longrightarrow>
      (\<exists>lg'. get_serial_port lg w =
         Some (Inr p, lg', w\<lparr>opens := opens w + n + 1, naps := naps w @ replicate n 5\<rparr>))) \<and>
   (find_dev w = Inr dev \<and> (\<forall>i. open_fails w dev i) \<longrightarrow>
      get_serial_port lg w = None \<and>
      (\<forall>m. \<exists>lg'. get_serial_port_n m lg w =
         (None, lg', w\<lparr>opens := opens w + m, naps := naps w @ replicate m 5\<rparr>)))"
proof (intro conjI impI allI)
  assume "hook_missing w"
  then have "try_connect lg w = (Inl (OSError ''Can not find binary which_tty_daq''), lg, w)"
    by (rule try_connect_missing)
  then show "get_serial_port lg w = Some (Inl (OSError ''Can not find binary which_tty_daq''), lg, w)"
    by (subst get_serial_port.simps) simp
next
  assume "find_dev w = Inr dev \<and> (\<forall>i<n. open_fails w dev i) \<and>
    serial_open w (opens w + n) dev = Inr p"
  then show "\<exists>lg'. get_serial_port lg w =
         Some (Inr p, lg', w\<lparr>opens := opens w + n + 1, naps := naps w @ replicate n 5\<rparr>)"
    using get_serial_port_after_failures by blast
next
  assume a: "find_dev w = Inr dev \<and> (\<forall>i. open_fails w dev i)"
  show "get_serial_port lg w = None"
  proof (cases "get_serial_port lg w")
    case None
    then show ?thesis .
  next
    case (Some r)
    then show ?thesis using get_serial_port_never_returns a by blast
  qed
next
  fix m
  assume a: "find_dev w = Inr dev \<and> (\<forall>i. open_fails w dev i)"
  then show "\<exists>lg'. get_serial_port_n m lg w =
         (None, lg', w\<lparr>opens := opens w + m, naps := naps w @ replicate m 5\<rparr>)"
    using get_serial_port_n_failures[of w dev m lg] by blast
qed

lemma find_dev_lab:
  "find_dev ((lab_world p)\<lparr>serial_open := f\<rparr>) = Inr ''/dev/ttyUSB0''"
  by (simp add: find_dev_def get_dev_path_def lab_world_def decode_def is_ascii_def rstrip_def)

theorem get_serial_port_failure_modes_witness:
  "hook_missing ((lab_world idle_port)\<lparr>popen := (\<lambda>s. Inl (OSError ''No such file or directory''))\<rparr>) \<and>
   get_serial_port []
     ((lab_world idle_port)\<lparr>popen := (\<lambda>s. Inl (OSError ''No such file or directory''))\<rparr>) =
     Some (Inl (OSError ''Can not find binary which_tty_daq''), [],
       (lab_world idle_port)\<lparr>popen := (\<lambda>s. Inl (OSError ''No such file or directory''))\<rparr>) \<and>
   (\<exists>lg'. get_serial_port []
      ((lab_world idle_port)\<lparr>serial_open :=
         (\<lambda>n dev. if n < 2 then Inl (SerialException ''could not open port'') else Inr idle_port)\<rparr>) =
      Some (Inr idle_port, lg',
        (lab_world idle_port)\<lparr>serial_open :=
         (\<lambda>n dev. if n < 2 then Inl (SerialException ''could not open port'') else Inr idle_port),
         opens := 3, naps := [5, 5]\<rparr>)) \<and>
   get_serial_port []
     ((lab_world idle_port)\<lparr>serial_open := (\<lambda>n dev. Inl (SerialException ''could not open port''))\<rparr>)
     = None"
proof -
  let ?w1 = "(lab_world idle_port)\<lparr>popen := (\<lambda>s. Inl (OSError ''No such file or directory''))\<rparr>"
  let ?w2 = "(lab_world idle_port)\<lparr>serial_open :=
         (\<lambda>n dev. if n < 2 then Inl (SerialException ''could not open port'') else Inr idle_port)\<rparr>"
  let ?w3 = "(lab_world idle_port)\<lparr>serial_open := (\<lambda>n dev. Inl (SerialException ''could not open port''))\<rparr>"
  have h1: "hook_missing ?w1" by (simp add: hook_missing_def lab_world_def)
  have h2: "find_dev ?w2 = Inr ''/dev/ttyUSB0'' \<and> (\<forall>i<2. open_fails ?w2 ''/dev/ttyUSB0'' i) \<and>
      serial_open ?w2 (opens ?w2 + 2) ''/dev/ttyUSB0'' = Inr idle_port"
    by (simp add: find_dev_lab open_fails_def) (simp add: lab_world_def)
  have h3: "find_dev ?w3 = Inr ''/dev/ttyUSB0'' \<and> (\<forall>i. open_fails ?w3 ''/dev/ttyUSB0'' i)"
    by (simp add: find_dev_lab open_fails_def)
  have e: "?w2\<lparr>opens := opens ?w2 + 2 + 1, naps := naps ?w2 @ replicate 2 5\<rparr> =
      ?w2\<lparr>opens := 3, naps := [5, 5]\<rparr>"
    by (simp add: lab_world_def numeral_2_eq_2)
  show ?thesis
    using h1 h2 h3
      get_serial_port_failure_modes [where w = ?w1 and lg = "[]"]
      get_serial_port_failure_modes [where w = ?w2 and lg = "[]" and dev = "''/dev/ttyUSB0''"
        and n = 2 and p = idle_port]
      get_serial_port_failure_modes [where w = ?w3 and lg = "[]" and dev = "''/dev/ttyUSB0''"]
    unfolding e by blast
qed

section \<open>What the reader loop pushes\<close>

lemma port_op_healthy: "healthy p \<Longrightarrow> port_op p = Inr p"
  by (simp add: healthy_def port_op_def)

lemma healthy_rx [simp]: "healthy (p\<lparr>rx := r\<rparr>) = healthy p"
  by (simp add: healthy_def)


lemma drain_empty: "healthy p \<Longrightarrow> rx p = [] \<Longrightarrow> drain emit p k = (None, p, k)"
  by (subst drain.simps) (simp add: inWaiting_def port_op_healthy)

lemma drain_line:
  assumes "healthy p" "rx p \<noteq> []" "split_line (rx p) = (line, rest)" "list_all is_ascii line"
    "emit (strip line) k = Inr k'"
  shows "drain emit p k = drain emit (p\<lparr>rx := rest\<rparr>) k'"
proof -
  have "list_all is_ascii (strip line)"
    using assms(4) unfolding strip_def list_all_iff
    by (metis (no_types, lifting) set_dropWhileD set_rev)
  then have d: "decode (strip line) = Inr (strip line)" by (simp add: decode_def)
  show ?thesis
    by (subst drain.simps) (simp add: inWaiting_def readline_def port_op_healthy assms d)
qed

lemma strip_decompose:
  "\<exists>a b. s = a @ strip s @ b \<and> list_all is_space a \<and> list_all is_space b"
proof -
  let ?m = "dropWhile is_space s"
  have 1: "s = takeWhile is_space s @ ?m" by simp
  have "rev (takeWhile is_space (rev ?m) @ dropWhile is_space (rev ?m)) = ?m"
    by (simp only: takeWhile_dropWhile_id rev_rev_ident)
  then have 2: "?m = strip s @ rev (takeWhile is_space (rev ?m))"
    by (simp only: strip_def rev_append)
  have 3: "list_all is_space (takeWhile is_space s)"
    by (simp add: list_all_iff) (metis set_takeWhileD)
  have 4: "list_all is_space (rev (takeWhile is_space (rev ?m)))"
    by (simp add: list_all_iff) (metis set_takeWhileD)
  have "s = takeWhile is_space s @ strip s @ rev (takeWhile is_space (rev ?m))"
    using 1 2 by metis
  then show ?thesis using 3 4 by blast
qed

lemma strip_ends:
  "strip s \<noteq> [] \<Longrightarrow> \<not> is_space (hd (strip s)) \<and> \<not> is_space (last (strip s))"
proof -
  assume n: "strip s \<noteq> []"
  let ?m = "dropWhile is_space s"
  let ?d = "dropWhile is_space (rev ?m)"
  have s: "strip s = rev ?d" by (simp add: strip_def)
  then have dn: "?d \<noteq> []" using n by simp
  then have l: "\<not> is_space (hd ?d)" by (rule hd_dropWhile)
  have "last (strip s) = hd ?d" using s dn by (simp add: last_rev)
  then have last: "\<not> is_space (last (strip s))" using l by simp
  have mn: "?m \<noteq> []"
  proof
    assume e: "?m = []"
    have "dropWhile is_space (rev ?m) = []" unfolding e by simp
    then show False using dn by simp
  qed
  then have hm: "\<not> is_space (hd ?m)" by (rule hd_dropWhile)
  have "?m = strip s @ rev (takeWhile is_space (rev ?m))"
  proof -
    have "rev (takeWhile is_space (rev ?m) @ dropWhile is_space (rev ?m)) = ?m"
      by (simp only: takeWhile_dropWhile_id rev_rev_ident)
    then show ?thesis by (simp only: strip_def rev_append)
  qed
  then have "hd ?m = hd (strip s)" using n by (metis hd_append2)
  then show ?thesis using hm last by simp
qed

lemma strip_ascii: "list_all is_ascii line \<Longrightarrow> decode (strip line) = Inr (strip line)"
proof -
  assume a: "list_all is_ascii line"
  have "list_all is_ascii (strip line)"
    using a unfolding strip_def list_all_iff
    by (metis (no_types, lifting) set_dropWhileD set_rev)
  then show ?thesis by (simp add: decode_def)
qed

text \<open>
  C2 as stated fails: from the raw line \<open>" ST \r\n"\<close> one iteration of the reader loop
  pushes \<open>"ST"\<close>, whereas the line without its trailing CR/LF is \<open>" ST "\<close>: the spaces at
  both ends are removed as well.
\<close>

theorem reader_strips_spaces:
  "DAQConnection_read_iteration (\<lambda>x. x) (lab_world idle_port)
     (new_conn (idle_port\<lparr>rx := '' ST '' @ [CR, LF]\<rparr>)) (1/100) \<noteq> None \<and>
   out_queue (fst (snd (snd (the (DAQConnection_read_iteration (\<lambda>x. x) (lab_world idle_port)
     (new_conn (idle_port\<lparr>rx := '' ST '' @ [CR, LF]\<rparr>)) (1/100)))))) = [''ST''] \<and>
   strip_eol ('' ST '' @ [CR, LF]) = '' ST '' \<and>
   ''ST'' \<noteq> '' ST ''"
  by code_simp

text \<open>
  C2, amended. For every raw ASCII line that the reader loop reads, the string pushed into
  the outbound queue is \<open>strip\<close> of the line, and the loop goes on with the rest of the
  buffer; an iteration that finds exactly one line on a healthy port pushes exactly that
  string. \<open>strip\<close> removes ASCII whitespace (space, TAB, LF, VT, FF, CR) from both ends and
  nothing else: the line is the result between two runs of whitespace, and a non-empty
  result neither begins nor ends with whitespace.
\<close>

theorem reader_pushes_stripped_line:
  "(inWaiting p = Inr (n, p1) \<and> n \<noteq> 0 \<and> readline p1 = Inr (line, p2) \<and> list_all is_ascii line \<longrightarrow>
      drain put_line p q = drain put_line p2 (q @ [strip line])) \<and>
   (healthy (serial_port c) \<and> rx (serial_port c) \<noteq> [] \<and>
    split_line (rx (serial_port c)) = (line, []) \<and> list_all is_ascii line \<longrightarrow>
      DAQConnection_read_iteration fl w c t =
        Some (None, sleep (speed_up fl t) w,
              c\<lparr>serial_port := (serial_port c)\<lparr>rx := []\<rparr>, out_queue := out_queue c @ [strip line]\<rparr>,
              speed_up fl t)) \<and>
   (\<exists>a b. line = a @ strip line @ b \<and> list_all is_space a \<and> list_all is_space b) \<and>
   (strip line \<noteq> [] \<longrightarrow> \<not> is_space (hd (strip line)) \<and> \<not> is_space (last (strip line)))"
proof (intro conjI impI)
  assume a: "inWaiting p = Inr (n, p1) \<and> n \<noteq> 0 \<and> readline p1 = Inr (line, p2) \<and> list_all is_ascii line"
  then show "drain put_line p q = drain put_line p2 (q @ [strip line])"
    by (subst drain.simps) (simp add: strip_ascii put_line_def queue_put_def)
next
  assume a: "healthy (serial_port c) \<and> rx (serial_port c) \<noteq> [] \<and>
    split_line (rx (serial_port c)) = (line, []) \<and> list_all is_ascii line"
  let ?p = "serial_port c"
  have "drain put_line ?p (out_queue c) = drain put_line (?p\<lparr>rx := []\<rparr>) (out_queue c @ [strip line])"
    by (rule drain_line[where line = line]) (use a in \<open>simp_all add: put_line_def queue_put_def\<close>)
  also have "\<dots> = (None, ?p\<lparr>rx := []\<rparr>, out_queue c @ [strip line])"
    by (rule drain_empty) (use a in simp_all)
  finally have d: "drain put_line ?p (out_queue c) = (None, ?p\<lparr>rx := []\<rparr>, out_queue c @ [strip line])" .
  have "read_try put_line fl w ?p (out_queue c) t =
      (None, sleep (speed_up fl t) w, ?p\<lparr>rx := []\<rparr>, out_queue c @ [strip line], speed_up fl t)"
    using a d by (simp add: read_try_def inWaiting_def port_op_healthy)
  then show "DAQConnection_read_iteration fl w c t =
        Some (None, sleep (speed_up fl t) w,
              c\<lparr>serial_port := (serial_port c)\<lparr>rx := []\<rparr>, out_queue := out_queue c @ [strip line]\<rparr>,
              speed_up fl t)"
    by (simp add: DAQConnection_read_iteration_def)
next
  show "\<exists>a b. line = a @ strip line @ b \<and> list_all is_space a \<and> list_all is_space b"
    by (rule strip_decompose)
next
  assume "strip line \<noteq> []"
  then show "\<not> is_space (hd (strip line))" using strip_ends by blast
next
  assume "strip line \<noteq> []"
  then show "\<not> is_space (last (strip line))" using strip_ends by blast
qed

theorem reader_pushes_stripped_line_witness:
  "healthy (serial_port (new_conn (idle_port\<lparr>rx := '' ST '' @ [CR, LF]\<rparr>))) \<and>
   split_line (rx (serial_port (new_conn (idle_port\<lparr>rx := '' ST '' @ [CR, LF]\<rparr>)))) =
     ('' ST '' @ [CR, LF], []) \<and>
   list_all is_ascii ('' ST '' @ [CR, LF]) \<and>
   strip ('' ST '' @ [CR, LF]) = ''ST'' \<and>
   DAQConnection_read_iteration (\<lambda>x. x) (lab_world idle_port)
     (new_conn (idle_port\<lparr>rx := '' ST '' @ [CR, LF]\<rparr>)) (1/100) =
     Some (None, sleep (speed_up (\<lambda>x. x) (1/100)) (lab_world idle_port),
           (new_conn (idle_port\<lparr>rx := '' ST '' @ [CR, LF]\<rparr>))
             \<lparr>serial_port := idle_port, out_queue := [''ST'']\<rparr>,
           speed_up (\<lambda>x. x) (1/100))"
proof -
  let ?c = "new_conn (idle_port\<lparr>rx := '' ST '' @ [CR, LF]\<rparr>)"
  have h: "healthy (serial_port ?c) \<and> rx (serial_port ?c) \<noteq> [] \<and>
      split_line (rx (serial_port ?c)) = ('' ST '' @ [CR, LF], []) \<and>
      list_all is_ascii ('' ST '' @ [CR, LF])"
    by (simp add: new_conn_def idle_port_def healthy_def is_ascii_def)
  have s: "strip ('' ST '' @ [CR, LF]) = ''ST''"
    by (simp add: strip_def is_space_def)
  have e: "(serial_port ?c)\<lparr>rx := []\<rparr> = idle_port" "out_queue ?c = []"
    by (simp_all add: new_conn_def idle_port_def)
  have it: "DAQConnection_read_iteration (\<lambda>x. x) (lab_world idle_port) ?c (1/100) =
     Some (None, sleep (speed_up (\<lambda>x. x) (1/100)) (lab_world idle_port),
           ?c\<lparr>serial_port := (serial_port ?c)\<lparr>rx := []\<rparr>,
              out_queue := out_queue ?c @ [strip ('' ST '' @ [CR, LF])]\<rparr>,
           speed_up (\<lambda>x. x) (1/100))"
    using h reader_pushes_stripped_line
      [where c = ?c and line = "'' ST '' @ [CR, LF]" and fl = "\<lambda>x. x" and w = "lab_world idle_port"
        and t = "1/100"]
    by blast
  have "?c\<lparr>serial_port := (serial_port ?c)\<lparr>rx := []\<rparr>,
            out_queue := out_queue ?c @ [strip ('' ST '' @ [CR, LF])]\<rparr> =
        ?c\<lparr>serial_port := idle_port, out_queue := [''ST'']\<rparr>"
    by (simp only: e s append_Nil)
  then have "DAQConnection_read_iteration (\<lambda>x. x) (lab_world idle_port) ?c (1/100) =
     Some (None, sleep (speed_up (\<lambda>x. x) (1/100)) (lab_world idle_port),
           ?c\<lparr>serial_port := idle_port, out_queue := [''ST'']\<rparr>,
           speed_up (\<lambda>x. x) (1/100))"
    using it by (simp only:)
  then show ?thesis using h s by blast
qed

section \<open>Faults in the reader loop\<close>

lemma release_fields [simp]:
  "serial_open (release p w) = serial_open w"
  "opens (release p w) = opens w"
  "naps (release p w) = naps w"
  "released (release p w) = released w @ [port_close p]"
  "popen (release p w) = popen w"
  "path_exists (release p w) = path_exists w"
  "package_script (release p w) = package_script w"
  by (simp_all add: release_def)

lemma hook_missing_release [simp]: "hook_missing (release p w) = hook_missing w"
  by (simp add: hook_missing_def)

lemma open_fails_release [simp]: "open_fails (release p w) dev i = open_fails w dev i"
  by (simp add: open_fails_def)









section \<open>The writer loop\<close>












section \<open>The serve loop\<close>










end
